theory Spec2Isabelle
  imports Complex_Main "HOL-Library.Word" "HOL-Library.Char_ord" "HOL-Library.List_Lexorder"
begin

section \<open>Python data\<close>

text \<open>
  Python \<open>bytes\<close> are lists of octets. A Python \<open>str\<close> that carries fuzzing data is a list
  of code points: an operator may return code points above 255, which latin-1 cannot
  encode. Identifier-like strings (operator names, observation names, expressions,
  labels) are HOL strings.
\<close>

type_synonym byte = "8 word"
type_synonym bytes = "byte list"
type_synonym pystr = "nat list"

text \<open>\<open>hashlib.md5(...).digest()\<close> is 16 octets: a 128-bit value.\<close>

type_synonym digest = "128 word"

text \<open>
  The values a run observes and a state dict holds: \<open>int\<close>, \<open>float\<close> (its value as a
  real number; floating-point rounding is not modelled), \<open>str\<close>, \<open>bytes\<close>, and the tuple
  a \<open>set\<close> item produces.
\<close>

datatype pyval =
    VInt int
  | VFloat real
  | VStr string
  | VBytes bytes
  | VTuple "pyval list"

type_synonym pydict = "string \<rightharpoonup> pyval"

text \<open>
  What \<open>json.load\<close> returns: \<open>None\<close>, a bool, an int, a float, a str, a list, or a
  dict (its items in order, looked up by key). A finite float is carried as the real
  number it denotes; \<open>NaN\<close>, \<open>Infinity\<close> and \<open>-Infinity\<close>, which \<open>json.load\<close> reads as
  well, are values of their own.
\<close>

datatype json =
    JNull
  | JBool bool
  | JInt int
  | JFloat real
  | JNaN
  | JInfinity
  | JNegInfinity
  | JStr string
  | JList "json list"
  | JObj "(string \<times> json) list"

datatype value_error =
    NoOperatorsLoaded
  | NoRulesDefined
  | NoMatchingRule
  | MissingOperatorsField
  | OperatorsNotAList
  | OperatorEntryNotAPair
  | UnknownOperator
  | InvalidWeight
  | InvalidLiteral

datatype cause = OperatorRaised | AttributeError_encode | UnicodeEncodeError | NotAnException

datatype error =
    ValueError value_error
  | RuntimeError string cause
  | IndexError
  | KeyError
  | TypeError
  | AttributeError
  | ZeroDivisionError
  | UtilsError
  | BaseException

subsection \<open>The module utils\<close>

text \<open>
  \<open>eval_predicate_expression\<close> and \<open>coerce_value_to_int\<close> are imported from the
  module \<open>utils\<close>, which is not among the sources. They are parameters of the model:
  the evaluator as the truth value the callers branch on, the coercion with \<open>None\<close>
  where it raises.
\<close>

record utils =
  eval_predicate_expression :: "string \<Rightarrow> pydict \<Rightarrow> bool"
  coerce_value_to_int :: "pyval \<Rightarrow> int option"

subsection \<open>latin-1\<close>

definition decode_latin1 :: "bytes \<Rightarrow> pystr" where
  "decode_latin1 b = map unat b"

definition encode_latin1 :: "pystr \<Rightarrow> cause + bytes" where
  "encode_latin1 s =
     (if list_all (\<lambda>c. c < 256) s then Inr (map of_nat s) else Inl UnicodeEncodeError)"

section \<open>Mutation engine (mutation_engine.py)\<close>

text \<open>
  What the engine takes from Python's library, as parameters: the digest, the weighted
  draw of \<open>random.choices\<close> on a non-empty population (the index it lands on, reduced
  modulo the number of entries, or the exception it raises, as it does when the total of
  the weights is not positive or not finite; and the generator's next state) and the
  entry \<open>set.pop\<close> removes (an index into the history, reduced modulo its length).
  \<open>'w\<close> is the state of everything an operator or the draw may read and change: the
  random generator and the operators' module globals.
\<close>

record 'w pylib =
  md5 :: "bytes \<Rightarrow> digest"
  random_choices :: "(string \<times> json) list \<Rightarrow> 'w \<Rightarrow> (error + nat) \<times> 'w"
  set_pop :: "digest list \<Rightarrow> nat"

text \<open>
  An operator is called with the decoded data and the mutation context. It returns a
  \<open>str\<close>, returns something that is not a \<open>str\<close> (which has no \<open>encode\<close> taking the
  codec), raises an \<open>Exception\<close>, or raises what is not one (\<open>SystemExit\<close>,
  \<open>KeyboardInterrupt\<close>), which \<open>except Exception\<close> does not catch.
\<close>

datatype op_result = OpStr pystr | OpNonStr | OpRaise | OpRaiseBase

type_synonym 'w operator = "pystr \<Rightarrow> pydict \<Rightarrow> 'w \<Rightarrow> op_result \<times> 'w"

text \<open>
  A rule of the strategy as \<open>select_rule\<close> and \<open>select_operator\<close> read it:
  \<open>rule.get('condition')\<close> (\<open>None\<close> when the key is absent or null) and the
  \<open>[name, weight]\<close> entries of \<open>rule['operators']\<close>, each weight as the strategy file
  gives it.
\<close>

record rule =
  rule_name :: "string option"
  rule_condition :: "string option"
  rule_operators :: "(string \<times> json) list"

text \<open>
  The engine's fields. \<open>operators\<close> is the dict of loaded callables, in the order of
  \<open>dir(module)\<close>; \<open>mutation_history\<close> is the set of digests, kept as a list without
  repetitions (an entry is added only when it is not a member).
\<close>

record 'w engine =
  operators :: "(string \<times> 'w operator) list"
  rules :: "rule list"
  mutation_history :: "digest list"
  max_mutation_history_size :: nat
  max_retries :: nat

definition init_engine :: "(string \<times> 'w operator) list \<Rightarrow> rule list \<Rightarrow> 'w engine" where
  "init_engine ops rs =
     \<lparr>operators = ops, rules = rs, mutation_history = [],
      max_mutation_history_size = 1000, max_retries = 5\<rparr>"

fun select_rule :: "utils \<Rightarrow> rule list \<Rightarrow> pydict \<Rightarrow> rule option" where
  "select_rule U [] mutation_context = None"
| "select_rule U (r # rs) mutation_context =
     (case rule_condition r of
        None \<Rightarrow> Some r
      | Some c \<Rightarrow>
          if eval_predicate_expression U c mutation_context then Some r
          else select_rule U rs mutation_context)"

text \<open>
  \<open>random.choices\<close> on an empty population raises \<open>IndexError\<close>; otherwise it raises
  what the draw raises (a \<open>ValueError\<close> for a total weight that is not finite, as with the
  weights \<open>1e308, 1e308\<close> or a \<open>NaN\<close>) or returns one of the names. Which name the
  weights favour is not modelled: the draw is the parameter.
\<close>

definition select_operator :: "'w pylib \<Rightarrow> rule \<Rightarrow> 'w \<Rightarrow> (error + string) \<times> 'w" where
  "select_operator L r w =
     (let names = map fst (rule_operators r) in
      if names = [] then (Inl IndexError, w)
      else (case random_choices L (rule_operators r) w of
              (Inl err, w') \<Rightarrow> (Inl err, w')
            | (Inr i, w') \<Rightarrow> (Inr (names ! (i mod length names)), w')))"

text \<open>
  The inner loop of \<open>mutate\<close>, \<open>for _ in range(self.max_retries)\<close>, with the number of
  attempts left. It yields \<open>Some mutated_data\<close> when an attempt's digest is new (the
  digest is then added to the history) and \<open>None\<close> when the loop runs out: the
  \<open>for\<close> has no \<open>else\<close>, nothing is appended then. An exception leaves the loop with its
  cause; \<open>mutate\<close> wraps it in a \<open>RuntimeError\<close> unless it is not an \<open>Exception\<close>.
\<close>

fun retry_loop ::
  "'w pylib \<Rightarrow> 'w operator \<Rightarrow> bytes \<Rightarrow> pydict \<Rightarrow> nat \<Rightarrow> digest list \<Rightarrow> 'w \<Rightarrow>
     (cause + bytes option) \<times> digest list \<times> 'w" where
  "retry_loop L op_func data mutation_context 0 h w = (Inr None, h, w)"
| "retry_loop L op_func data mutation_context (Suc k) h w =
     (let data_str = decode_latin1 data in
      case op_func data_str mutation_context w of
        (OpRaise, w') \<Rightarrow> (Inl OperatorRaised, h, w')
      | (OpRaiseBase, w') \<Rightarrow> (Inl NotAnException, h, w')
      | (OpNonStr, w') \<Rightarrow> (Inl AttributeError_encode, h, w')
      | (OpStr mutated_str, w') \<Rightarrow>
          (case encode_latin1 mutated_str of
             Inl e \<Rightarrow> (Inl e, h, w')
           | Inr mutated_data \<Rightarrow>
               (let m_hash = md5 L mutated_data in
                if m_hash \<notin> set h then (Inr (Some mutated_data), h @ [m_hash], w')
                else retry_loop L op_func data mutation_context k h w')))"

text \<open>\<open>self.mutation_history.pop()\<close>: \<open>KeyError\<close> on an empty set, else one entry goes.\<close>

definition history_pop :: "'w pylib \<Rightarrow> digest list \<Rightarrow> error + digest list" where
  "history_pop L h =
     (if h = [] then Inl KeyError
      else (let i = set_pop L h mod length h in Inr (take i h @ drop (Suc i) h)))"

text \<open>
  The outer loop, \<open>for _ in range(num_mutations)\<close>, with the number of rounds left, the
  \<open>mutations\<close> list, the history and the outside state.
\<close>

fun mutate_loop ::
  "utils \<Rightarrow> 'w pylib \<Rightarrow> 'w engine \<Rightarrow> bytes \<Rightarrow> pydict \<Rightarrow> nat \<Rightarrow> (bytes \<times> string) list \<Rightarrow>
     digest list \<Rightarrow> 'w \<Rightarrow> (error + (bytes \<times> string) list) \<times> digest list \<times> 'w" where
  "mutate_loop U L e data mutation_context 0 mutations h w = (Inr mutations, h, w)"
| "mutate_loop U L e data mutation_context (Suc k) mutations h w =
     (case select_rule U (rules e) mutation_context of
        None \<Rightarrow> (Inl (ValueError NoMatchingRule), h, w)
      | Some r \<Rightarrow>
          (case select_operator L r w of
             (Inl err, w1) \<Rightarrow> (Inl err, h, w1)
           | (Inr op_name, w1) \<Rightarrow>
               (case map_of (operators e) op_name of
                  None \<Rightarrow> (Inl KeyError, h, w1)
                | Some op_func \<Rightarrow>
                    (case retry_loop L op_func data mutation_context (max_retries e) h w1 of
                       (Inl c, h2, w2) \<Rightarrow>
                         (Inl (if c = NotAnException then BaseException
                               else RuntimeError op_name c), h2, w2)
                     | (Inr res, h2, w2) \<Rightarrow>
                         (let mutations2 =
                                (case res of
                                   None \<Rightarrow> mutations
                                 | Some mutated_data \<Rightarrow> mutations @ [(mutated_data, op_name)])
                          in if length h2 \<ge> max_mutation_history_size e
                             then (case history_pop L h2 of
                                     Inl err \<Rightarrow> (Inl err, h2, w2)
                                   | Inr h3 \<Rightarrow>
                                       mutate_loop U L e data mutation_context k mutations2 h3 w2)
                             else mutate_loop U L e data mutation_context k mutations2 h2 w2)))))"

text \<open>
  \<open>mutate\<close> returns the list or the exception, the engine with its history as the call
  left it (also when it raised), and the outside state. \<open>range(n)\<close> is empty for
  \<open>n \<le> 0\<close>.
\<close>

definition mutate ::
  "utils \<Rightarrow> 'w pylib \<Rightarrow> 'w engine \<Rightarrow> bytes \<Rightarrow> pydict \<Rightarrow> int \<Rightarrow> 'w \<Rightarrow>
     (error + (bytes \<times> string) list) \<times> 'w engine \<times> 'w" where
  "mutate U L e data mutation_context num_mutations w =
     (if operators e = [] then (Inl (ValueError NoOperatorsLoaded), e, w)
      else if rules e = [] then (Inl (ValueError NoRulesDefined), e, w)
      else (case mutate_loop U L e data mutation_context (nat num_mutations) []
                   (mutation_history e) w of
              (res, h, w') \<Rightarrow> (res, e\<lparr>mutation_history := h\<rparr>, w')))"

section \<open>State projector (subprocess_execution.py)\<close>

text \<open>
  A state spec item is a dict read by its keys \<open>'type'\<close>, \<open>'name'\<close> and \<open>'expr'\<close>; a
  subscript on a missing key raises \<open>KeyError\<close>.
\<close>

record spec_item =
  item_type :: string
  item_name :: "string option"
  item_expr :: "string option"

text \<open>
  \<open>execution_value_samples\<close> is a dict from a name to its list of values, in insertion
  order: an association list whose keys are distinct.
\<close>

type_synonym samples = "(string \<times> pyval list) list"

text \<open>\<open>str(v)\<close> of a value that is not a \<open>str\<close> (a float, a tuple) is Python's own.\<close>

record builtins =
  py_str :: "pyval \<Rightarrow> string"
  py_float :: "string \<Rightarrow> real option"
  int_max_str_digits :: nat

definition subscript :: "'a option \<Rightarrow> error + 'a" where
  "subscript v = (case v of None \<Rightarrow> Inl KeyError | Some x \<Rightarrow> Inr x)"

text \<open>The \<open>sum\<close> loop: \<open>total += coerce_value_to_int(v)\<close>.\<close>

fun sum_loop :: "utils \<Rightarrow> pyval list \<Rightarrow> int \<Rightarrow> error + int" where
  "sum_loop U [] tot = Inr tot"
| "sum_loop U (v # vs) tot =
     (case coerce_value_to_int U v of
        None \<Rightarrow> Inl UtilsError
      | Some n \<Rightarrow> sum_loop U vs (tot + n))"

text \<open>The environment of step \<open>i\<close> of a \<open>counter\<close>.\<close>

definition step_values :: "samples \<Rightarrow> nat \<Rightarrow> pydict" where
  "step_values execution_value_samples i =
     fold (\<lambda>(name, values) m. if i < length values then m(name \<mapsto> values ! i) else m)
       execution_value_samples Map.empty"

definition max_length :: "samples \<Rightarrow> nat" where
  "max_length execution_value_samples =
     fold (\<lambda>(name, values) m. max m (length values)) execution_value_samples 0"

definition counter_loop :: "utils \<Rightarrow> string \<Rightarrow> samples \<Rightarrow> int" where
  "counter_loop U expr execution_value_samples =
     fold (\<lambda>i count.
             if eval_predicate_expression U expr (step_values execution_value_samples i)
             then count + 1 else count)
       [0..<max_length execution_value_samples] 0"

text \<open>
  The \<open>set\<close> item: bytes and ints go into the set as they are, everything else as its
  \<open>str\<close>. \<open>sorted\<close> compares ints with ints, strs with strs (by code point) and bytes
  with bytes; a set that mixes them raises \<open>TypeError\<close>.
\<close>

definition canonical :: "builtins \<Rightarrow> pyval \<Rightarrow> pyval" where
  "canonical B v =
     (case v of
        VBytes b \<Rightarrow> VBytes b
      | VInt i \<Rightarrow> VInt i
      | VStr s \<Rightarrow> VStr s
      | _ \<Rightarrow> VStr (py_str B v))"

definition sorted_unique :: "pyval list \<Rightarrow> error + pyval list" where
  "sorted_unique unique_values =
     (let ints = concat (map (\<lambda>v. case v of VInt i \<Rightarrow> [i] | _ \<Rightarrow> []) unique_values);
          strs = concat (map (\<lambda>v. case v of VStr s \<Rightarrow> [s] | _ \<Rightarrow> []) unique_values);
          bs = concat (map (\<lambda>v. case v of VBytes b \<Rightarrow> [b] | _ \<Rightarrow> []) unique_values)
      in if length ints = length unique_values then Inr (map VInt (sort (remdups ints)))
         else if length strs = length unique_values then Inr (map VStr (sort (remdups strs)))
         else if length bs = length unique_values then Inr (map VBytes (sort (remdups bs)))
         else Inl TypeError)"

definition samples_get :: "samples \<Rightarrow> string \<Rightarrow> pyval list" where
  "samples_get execution_value_samples name =
     (case map_of execution_value_samples name of None \<Rightarrow> [] | Some values \<Rightarrow> values)"

text \<open>
  One round of the loop of \<open>_compute_state_dict\<close>: the \<open>if\<close>/\<open>elif\<close> chain on the item
  type, with no \<open>else\<close>. The printing under \<open>show_execution_values\<close> changes no value.
\<close>

definition compute_item ::
  "utils \<Rightarrow> builtins \<Rightarrow> samples \<Rightarrow> pydict \<Rightarrow> spec_item \<Rightarrow> pydict \<Rightarrow> error + pydict" where
  "compute_item U B execution_value_samples latest_values item result =
     (if item_type item = ''value'' then
        (case subscript (item_name item) of
           Inl err \<Rightarrow> Inl err
         | Inr name \<Rightarrow>
             (case latest_values name of
                Some v \<Rightarrow> Inr (result(name \<mapsto> v))
              | None \<Rightarrow> Inr result))
      else if item_type item = ''sum'' then
        (case subscript (item_name item) of
           Inl err \<Rightarrow> Inl err
         | Inr name \<Rightarrow>
             (case sum_loop U (samples_get execution_value_samples name) 0 of
                Inl err \<Rightarrow> Inl err
              | Inr tot \<Rightarrow> Inr (result(name \<mapsto> VInt tot))))
      else if item_type item = ''predicate'' then
        (case subscript (item_expr item) of
           Inl err \<Rightarrow> Inl err
         | Inr expr \<Rightarrow>
             (let fired = eval_predicate_expression U expr latest_values
              in Inr (result(expr \<mapsto> VInt (if fired then 1 else 0)))))
      else if item_type item = ''counter'' then
        (case subscript (item_expr item) of
           Inl err \<Rightarrow> Inl err
         | Inr expr \<Rightarrow>
             Inr (result(expr \<mapsto> VInt (counter_loop U expr execution_value_samples))))
      else if item_type item = ''set'' then
        (case subscript (item_name item) of
           Inl err \<Rightarrow> Inl err
         | Inr name \<Rightarrow>
             (case sorted_unique (map (canonical B) (samples_get execution_value_samples name)) of
                Inl err \<Rightarrow> Inl err
              | Inr tup \<Rightarrow> Inr (result(name \<mapsto> VTuple tup))))
      else Inr result)"

fun compute_loop ::
  "utils \<Rightarrow> builtins \<Rightarrow> samples \<Rightarrow> pydict \<Rightarrow> spec_item list \<Rightarrow> pydict \<Rightarrow> error + pydict" where
  "compute_loop U B execution_value_samples latest_values [] result = Inr result"
| "compute_loop U B execution_value_samples latest_values (item # spec) result =
     (case compute_item U B execution_value_samples latest_values item result of
        Inl err \<Rightarrow> Inl err
      | Inr result' \<Rightarrow> compute_loop U B execution_value_samples latest_values spec result')"

definition compute_state_dict ::
  "utils \<Rightarrow> builtins \<Rightarrow> spec_item list \<Rightarrow> samples \<Rightarrow> pydict \<Rightarrow> bool \<Rightarrow> error + pydict" where
  "compute_state_dict U B spec execution_value_samples latest_values show_execution_values =
     compute_loop U B execution_value_samples latest_values spec Map.empty"

text \<open>
  One round of the loop of \<open>_dict_to_state_tuple\<close>: the entries the item appends to
  \<open>computed\<close>.
\<close>

definition tuple_item :: "spec_item \<Rightarrow> pydict \<Rightarrow> error + pyval list" where
  "tuple_item item state_dict =
     (if item_type item = ''value'' then
        (case subscript (item_name item) of
           Inl err \<Rightarrow> Inl err
         | Inr name \<Rightarrow>
             (case state_dict name of
                Some v \<Rightarrow> Inr [VStr (name @ '' (value)''), v]
              | None \<Rightarrow> Inr []))
      else if item_type item = ''sum'' then
        (case subscript (item_name item) of
           Inl err \<Rightarrow> Inl err
         | Inr name \<Rightarrow>
             (case state_dict name of
                Some v \<Rightarrow> Inr [VStr (name @ '' (sum)''), v]
              | None \<Rightarrow> Inr []))
      else if item_type item = ''predicate'' then
        (case subscript (item_expr item) of
           Inl err \<Rightarrow> Inl err
         | Inr expr \<Rightarrow>
             (case state_dict expr of
                Some v \<Rightarrow> Inr [VStr expr, v]
              | None \<Rightarrow> Inr []))
      else if item_type item = ''counter'' then
        (case subscript (item_expr item) of
           Inl err \<Rightarrow> Inl err
         | Inr expr \<Rightarrow>
             (case state_dict expr of
                Some v \<Rightarrow> Inr [VStr (expr @ '' (count)''), v]
              | None \<Rightarrow> Inr []))
      else if item_type item = ''set'' then
        (case subscript (item_name item) of
           Inl err \<Rightarrow> Inl err
         | Inr name \<Rightarrow>
             (case state_dict name of
                Some v \<Rightarrow> Inr [VStr (name @ '' (set)''), v]
              | None \<Rightarrow> Inr []))
      else Inr [])"

fun tuple_loop :: "spec_item list \<Rightarrow> pydict \<Rightarrow> pyval list \<Rightarrow> error + pyval list" where
  "tuple_loop [] state_dict computed = Inr computed"
| "tuple_loop (item # spec) state_dict computed =
     (case tuple_item item state_dict of
        Inl err \<Rightarrow> Inl err
      | Inr entries \<Rightarrow> tuple_loop spec state_dict (computed @ entries))"

definition dict_to_state_tuple :: "spec_item list \<Rightarrow> pydict \<Rightarrow> error + pyval list" where
  "dict_to_state_tuple spec state_dict = tuple_loop spec state_dict []"

section \<open>Reading the observations off stdout (execute_binary)\<close>

text \<open>
  \<open>stdout.decode('latin-1')\<close> is a text of code points below 256: a HOL string, one
  \<open>char\<close> per code point. The string methods the parser calls are Python's, on that
  range: \<open>str.isspace\<close>, \<open>str.strip\<close>, \<open>str.split\<close>, \<open>str.splitlines\<close>, \<open>str.find\<close>,
  \<open>str.isdigit\<close>, \<open>str.lower\<close> and \<open>int\<close>.
\<close>

definition py_isspace :: "char \<Rightarrow> bool" where
  "py_isspace c \<longleftrightarrow>
     c \<in> {CHR 0x09, CHR 0x0A, CHR 0x0B, CHR 0x0C, CHR 0x0D, CHR 0x1C, CHR 0x1D, CHR 0x1E,
          CHR 0x1F, CHR 0x20, CHR 0x85, CHR 0xA0}"

definition py_strip :: "string \<Rightarrow> string" where
  "py_strip s = rev (dropWhile py_isspace (rev (dropWhile py_isspace s)))"

definition is_linebreak :: "char \<Rightarrow> bool" where
  "is_linebreak c \<longleftrightarrow>
     c \<in> {CHR 0x0A, CHR 0x0B, CHR 0x0C, CHR 0x0D, CHR 0x1C, CHR 0x1D, CHR 0x1E, CHR 0x85}"

fun splitlines_from :: "string \<Rightarrow> string \<Rightarrow> string list" where
  "splitlines_from [] cur = (if cur = [] then [] else [cur])"
| "splitlines_from [c] cur = (if is_linebreak c then [cur] else [cur @ [c]])"
| "splitlines_from (c # d # cs) cur =
     (if c = CHR 0x0D \<and> d = CHR 0x0A then cur # splitlines_from cs []
      else if is_linebreak c then cur # splitlines_from (d # cs) []
      else splitlines_from (d # cs) (cur @ [c]))"

definition py_splitlines :: "string \<Rightarrow> string list" where
  "py_splitlines s = splitlines_from s []"

text \<open>\<open>line.find(pattern)\<close>: the lowest index where the pattern starts, if it occurs.\<close>

fun py_find :: "string \<Rightarrow> string \<Rightarrow> nat option" where
  "py_find pat [] = (if pat = [] then Some 0 else None)"
| "py_find pat (c # cs) =
     (if take (length pat) (c # cs) = pat then Some 0
      else map_option Suc (py_find pat cs))"

text \<open>
  \<open>str.isdigit\<close> on latin-1: the ASCII digits and the superscripts two, three and one
  (which \<open>int\<close> does not read).
\<close>

definition is_ascii_digit :: "char \<Rightarrow> bool" where
  "is_ascii_digit c \<longleftrightarrow> CHR ''0'' \<le> c \<and> c \<le> CHR ''9''"

definition py_isdigit :: "string \<Rightarrow> bool" where
  "py_isdigit s \<longleftrightarrow>
     s \<noteq> [] \<and> list_all (\<lambda>c. is_ascii_digit c \<or> c \<in> {CHR 0xB2, CHR 0xB3, CHR 0xB9}) s"

definition lower_char :: "char \<Rightarrow> char" where
  "lower_char c =
     (let n = (of_char c :: nat) in
      if (65 \<le> n \<and> n \<le> 90) \<or> (192 \<le> n \<and> n \<le> 222 \<and> n \<noteq> 215) then char_of (n + 32)
      else c)"

definition py_lower :: "string \<Rightarrow> string" where
  "py_lower s = map lower_char s"

text \<open>
  \<open>int(s)\<close> in base 10: surrounding whitespace is stripped, a sign may lead, single
  underscores may stand between digits; more digits than the interpreter's limit
  (\<open>sys.get_int_max_str_digits()\<close>, 0 for none) is a \<open>ValueError\<close> as well.
\<close>

definition digits_value :: "string \<Rightarrow> int" where
  "digits_value ds = foldl (\<lambda>a c. 10 * a + (int (of_char c) - 48)) 0 ds"

fun underscores_ok :: "string \<Rightarrow> bool" where
  "underscores_ok [] = False"
| "underscores_ok [c] = is_ascii_digit c"
| "underscores_ok (c # d # cs) =
     (is_ascii_digit c \<and>
      (if d = CHR ''_'' then underscores_ok cs else underscores_ok (d # cs)))"

definition py_int :: "builtins \<Rightarrow> string \<Rightarrow> error + int" where
  "py_int B s =
     (let t = py_strip s;
          neg = (t \<noteq> [] \<and> hd t = CHR ''-'');
          body = (if t \<noteq> [] \<and> (hd t = CHR ''-'' \<or> hd t = CHR ''+'') then tl t else t);
          ds = filter (\<lambda>c. c \<noteq> CHR ''_'') body
      in if \<not> underscores_ok body then Inl (ValueError InvalidLiteral)
         else if int_max_str_digits B \<noteq> 0 \<and> length ds > int_max_str_digits B
         then Inl (ValueError InvalidLiteral)
         else Inr (if neg then - digits_value ds else digits_value ds))"

text \<open>The body of the \<open>try\<close>: the value the declared type makes of the token.\<close>

definition coerce :: "builtins \<Rightarrow> string \<Rightarrow> string \<Rightarrow> error + pyval" where
  "coerce B value_type value_str =
     (if value_type = ''int'' then
        (case py_int B value_str of Inl err \<Rightarrow> Inl err | Inr n \<Rightarrow> Inr (VInt n))
      else if value_type = ''float'' then
        (case py_float B value_str of
           None \<Rightarrow> Inl (ValueError InvalidLiteral)
         | Some x \<Rightarrow> Inr (VFloat x))
      else if value_type = ''bool'' then
        (if py_isdigit value_str then
           (case py_int B value_str of Inl err \<Rightarrow> Inl err | Inr n \<Rightarrow> Inr (VInt n))
         else Inr (VInt (if py_lower value_str \<in> {''true'', ''yes'', ''1''} then 1 else 0)))
      else Inr (VStr value_str))"

text \<open>A dict assignment \<open>d[k] = v\<close>: in place when the key is there, at the end otherwise.\<close>

fun dict_set :: "('k \<times> 'v) list \<Rightarrow> 'k \<Rightarrow> 'v \<Rightarrow> ('k \<times> 'v) list" where
  "dict_set [] k v = [(k, v)]"
| "dict_set ((k', v') # d) k v =
     (if k' = k then (k, v) # d else (k', v') # dict_set d k v)"

definition append_sample :: "samples \<Rightarrow> string \<Rightarrow> pyval \<Rightarrow> samples" where
  "append_sample execution_value_samples exec_name v =
     dict_set execution_value_samples exec_name
       (samples_get execution_value_samples exec_name @ [v])"

text \<open>
  \<open>EXECUTION_VALUES_DICT\<close>: the configured observations by name, each with the value of
  its \<open>'type'\<close> key if it has one.
\<close>

definition values_dict :: "(string \<times> string option) list \<Rightarrow> (string \<times> string option) list" where
  "values_dict execution_values_list =
     fold (\<lambda>(name, ty) d. dict_set d name ty) execution_values_list []"

definition first_token :: "string \<Rightarrow> string" where
  "first_token value_part =
     (if list_all py_isspace value_part then value_part
      else takeWhile (\<lambda>c. \<not> py_isspace c) (dropWhile py_isspace value_part))"

definition scan_name ::
  "builtins \<Rightarrow> string \<Rightarrow> string \<times> string option \<Rightarrow> samples \<Rightarrow> samples" where
  "scan_name B line entry execution_value_samples =
     (case entry of (exec_name, ty) \<Rightarrow>
        (let pattern = exec_name @ '':'' in
         case py_find pattern line of
           None \<Rightarrow> execution_value_samples
         | Some idx \<Rightarrow>
             (let value_part = py_strip (drop (idx + length pattern) line);
                  value_str = first_token value_part;
                  value_type = (case ty of None \<Rightarrow> ''string'' | Some t \<Rightarrow> t)
              in case coerce B value_type value_str of
                   Inl err \<Rightarrow> execution_value_samples
                 | Inr v \<Rightarrow> append_sample execution_value_samples exec_name v)))"

definition parse_stdout ::
  "builtins \<Rightarrow> (string \<times> string option) list \<Rightarrow> string \<Rightarrow> samples" where
  "parse_stdout B execution_values_list stdout_text =
     fold (\<lambda>line acc. fold (scan_name B (py_strip line)) (values_dict execution_values_list) acc)
       (py_splitlines stdout_text) []"

definition latest_of :: "samples \<Rightarrow> pydict" where
  "latest_of execution_value_samples =
     (\<lambda>k. case map_of execution_value_samples k of
             None \<Rightarrow> None
           | Some v_list \<Rightarrow> if v_list = [] then None else Some (last v_list))"

section \<open>Corpus stat tracker (corpus_stat_tracker.py)\<close>

text \<open>
  The fields of an \<open>ExecutionResult\<close> that \<open>add_sample\<close> reads. A bitmap is a sequence of
  octets, read by truth value. Times are seconds as real numbers.
\<close>

record execution_result =
  sample_cov_bitmap :: "bytes option"
  sample_branch_taken_bitmap :: "bytes option"
  sample_branch_fallthrough_bitmap :: "bytes option"
  sample_instr_address_set :: "int set option"
  sample_total_instructions :: int
  sample_pathlen_blocks :: int
  sample_call_depth :: int
  sample_execution_time :: real

record tracker =
  MAP_SIZE :: nat
  cov_bitmap :: bytes
  branch_taken :: bytes
  branch_fallthrough :: bytes
  instruction_addresses :: "int set"
  total_instructions :: int
  pathlen_blocks_sum :: int
  pathlen_blocks_max :: int
  calldepth_inside_sum :: int
  calldepth_inside_max :: int
  num_samples :: nat
  coverage_plateau_timeout :: real
  last_coverage_time :: real
  last_coverage_edges :: int
  start_time :: real
  cumulative_execution_time :: real

definition init_tracker :: "nat \<Rightarrow> real \<Rightarrow> real \<Rightarrow> real \<Rightarrow> tracker" where
  "init_tracker map_size plateau_timeout now1 now2 =
     \<lparr>MAP_SIZE = map_size,
      cov_bitmap = replicate map_size 0,
      branch_taken = replicate map_size 0,
      branch_fallthrough = replicate map_size 0,
      instruction_addresses = {},
      total_instructions = 0,
      pathlen_blocks_sum = 0,
      pathlen_blocks_max = 0,
      calldepth_inside_sum = 0,
      calldepth_inside_max = 0,
      num_samples = 0,
      coverage_plateau_timeout = plateau_timeout,
      last_coverage_time = now1,
      last_coverage_edges = 0,
      start_time = now2,
      cumulative_execution_time = 0\<rparr>"

text \<open>
  \<open>for i in range(len(gb))\<close>, from index \<open>i\<close> on: the global bitmap, whether a new edge
  was seen, and whether \<open>rb[i]\<close> ran off the end of the sample's bitmap (\<open>IndexError\<close>).
  The bytes set before the exception stay set.
\<close>

function cov_loop :: "bytes \<Rightarrow> bytes \<Rightarrow> nat \<Rightarrow> bool \<Rightarrow> bytes \<times> bool \<times> bool" where
  "cov_loop gb rb i new_edge_coverage =
     (if i < length gb then
        (if i < length rb then
           (if rb ! i \<noteq> 0 \<and> gb ! i = 0 then cov_loop (gb[i := 1]) rb (Suc i) True
            else cov_loop gb rb (Suc i) new_edge_coverage)
         else (gb, new_edge_coverage, True))
      else (gb, new_edge_coverage, False))"
  by pat_completeness auto
termination
  by (relation "measure (\<lambda>(gb, rb, i, n). length gb - i)") auto

text \<open>
  \<open>for i in range(self.MAP_SIZE)\<close> over the two branch bitmaps, from index \<open>i\<close> on;
  the flag says that a subscript ran off the end of one of the four sequences.
\<close>

function branch_loop ::
  "nat \<Rightarrow> bytes \<Rightarrow> bytes \<Rightarrow> bytes \<Rightarrow> bytes \<Rightarrow> nat \<Rightarrow> bytes \<times> bytes \<times> bool" where
  "branch_loop n bt bf taken fallthrough i =
     (if i < n then
        (if i < length bt then
           (if bt ! i \<noteq> 0 \<and> \<not> i < length taken then (taken, fallthrough, True)
            else
              (let taken' = (if bt ! i \<noteq> 0 then taken[i := 1] else taken) in
               if i < length bf then
                 (if bf ! i \<noteq> 0 \<and> \<not> i < length fallthrough then (taken', fallthrough, True)
                  else
                    (let fallthrough' = (if bf ! i \<noteq> 0 then fallthrough[i := 1] else fallthrough)
                     in branch_loop n bt bf taken' fallthrough' (Suc i)))
               else (taken', fallthrough, True)))
         else (taken, fallthrough, True))
      else (taken, fallthrough, False))"
  by pat_completeness auto
termination
  by (relation "measure (\<lambda>(n, bt, bf, taken, fallthrough, i). n - i)") auto

declare cov_loop.simps [simp del] branch_loop.simps [simp del]

text \<open>
  \<open>add_sample\<close>, with the reading of \<open>time.time()\<close> it would take. It returns the
  exception, if one left the method, and the tracker as the method left it.
\<close>

definition add_sample :: "tracker \<Rightarrow> execution_result \<Rightarrow> real \<Rightarrow> error option \<times> tracker" where
  "add_sample self sample now =
     (case (case sample_cov_bitmap sample of
              None \<Rightarrow> (cov_bitmap self, False, False)
            | Some rb \<Rightarrow> cov_loop (cov_bitmap self) rb 0 False) of
        (gb, new_edge_coverage, failed1) \<Rightarrow>
          (let self1 = self\<lparr>cov_bitmap := gb\<rparr> in
           if failed1 then (Some IndexError, self1)
           else
             (case (case (sample_branch_taken_bitmap sample, sample_branch_fallthrough_bitmap sample) of
                      (Some bt, Some bf) \<Rightarrow>
                        branch_loop (MAP_SIZE self1) bt bf (branch_taken self1)
                          (branch_fallthrough self1) 0
                    | _ \<Rightarrow> (branch_taken self1, branch_fallthrough self1, False)) of
                (taken, fallthrough, failed2) \<Rightarrow>
                  (let self2 = self1\<lparr>branch_taken := taken, branch_fallthrough := fallthrough\<rparr> in
                   if failed2 then (Some IndexError, self2)
                   else
                     (let self3 =
                            (case sample_instr_address_set sample of
                               None \<Rightarrow> self2
                             | Some addrs \<Rightarrow>
                                 if addrs = {} then self2
                                 else self2\<lparr>instruction_addresses :=
                                              instruction_addresses self2 \<union> addrs\<rparr>);
                          self4 =
                            (if new_edge_coverage then self3\<lparr>last_coverage_time := now\<rparr>
                             else self3)
                      in (None,
                          self4\<lparr>total_instructions :=
                                   total_instructions self4 + sample_total_instructions sample,
                                 pathlen_blocks_sum :=
                                   pathlen_blocks_sum self4 + sample_pathlen_blocks sample,
                                 pathlen_blocks_max :=
                                   max (pathlen_blocks_max self4) (sample_pathlen_blocks sample),
                                 calldepth_inside_sum :=
                                   calldepth_inside_sum self4 + sample_call_depth sample,
                                 calldepth_inside_max :=
                                   max (calldepth_inside_max self4) (sample_call_depth sample),
                                 cumulative_execution_time :=
                                   cumulative_execution_time self4 + sample_execution_time sample,
                                 num_samples := num_samples self4 + 1\<rparr>))))))"

record corpus_stat_result =
  total_edges :: nat
  total_branch_sites :: nat
  total_unique_instructions :: nat
  avg_pathlen_blocks :: real
  max_pathlen_blocks :: int
  avg_calldepth :: real
  max_calldepth :: int

text \<open>The averages divide by \<open>num_samples\<close>: \<open>ZeroDivisionError\<close> on a tracker with none.\<close>

definition get_result :: "tracker \<Rightarrow> error + corpus_stat_result" where
  "get_result self =
     (if num_samples self = 0 then Inl ZeroDivisionError
      else Inr
        \<lparr>total_edges = length (filter (\<lambda>b. b \<noteq> 0) (cov_bitmap self)),
         total_branch_sites =
           length (filter (\<lambda>(bt, bf). bt \<noteq> 0 \<or> bf \<noteq> 0)
                     (zip (branch_taken self) (branch_fallthrough self))),
         total_unique_instructions = card (instruction_addresses self),
         avg_pathlen_blocks = real_of_int (pathlen_blocks_sum self) / real (num_samples self),
         max_pathlen_blocks = pathlen_blocks_max self,
         avg_calldepth = real_of_int (calldepth_inside_sum self) / real (num_samples self),
         max_calldepth = calldepth_inside_max self\<rparr>)"

text \<open>
  A sequence of \<open>add_sample\<close> calls, each with its sample and clock reading. A call that
  raises leaves the tracker as it was at the exception; the next call goes on from there.
\<close>

fun add_samples :: "tracker \<Rightarrow> (execution_result \<times> real) list \<Rightarrow> tracker" where
  "add_samples self [] = self"
| "add_samples self ((sample, now) # rest) = add_samples (snd (add_sample self sample now)) rest"

section \<open>Loading the strategy (MutationEngine._load_strategy)\<close>

text \<open>
  \<open>op_name not in self.operators\<close>: the loaded operators are keyed by their names; a
  list or a dict is not hashable (\<open>TypeError\<close>); any other value that is not a str is not
  a key.
\<close>

definition not_loaded :: "string list \<Rightarrow> json \<Rightarrow> error + bool" where
  "not_loaded loaded op_name =
     (case op_name of
        JStr s \<Rightarrow> Inr (s \<notin> set loaded)
      | JList xs \<Rightarrow> Inl TypeError
      | JObj kvs \<Rightarrow> Inl TypeError
      | _ \<Rightarrow> Inr True)"

text \<open>
  \<open>not isinstance(weight, (int, float)) or weight <= 0\<close>; a bool is an int in Python,
  \<open>True\<close> being 1, and \<open>NaN <= 0\<close> is false: a \<open>NaN\<close> and an \<open>Infinity\<close> pass.
\<close>

definition invalid_weight :: "json \<Rightarrow> bool" where
  "invalid_weight weight =
     (case weight of
        JInt n \<Rightarrow> n \<le> 0
      | JBool b \<Rightarrow> \<not> b
      | JFloat x \<Rightarrow> x \<le> 0
      | JNaN \<Rightarrow> False
      | JInfinity \<Rightarrow> False
      | JNegInfinity \<Rightarrow> True
      | _ \<Rightarrow> True)"

definition check_entry :: "string list \<Rightarrow> json \<Rightarrow> error option" where
  "check_entry loaded op_entry =
     (case op_entry of
        JList [op_name, weight] \<Rightarrow>
          (case not_loaded loaded op_name of
             Inl err \<Rightarrow> Some err
           | Inr True \<Rightarrow> Some (ValueError UnknownOperator)
           | Inr False \<Rightarrow>
               if invalid_weight weight then Some (ValueError InvalidWeight) else None)
      | _ \<Rightarrow> Some (ValueError OperatorEntryNotAPair))"

fun check_entries :: "string list \<Rightarrow> json list \<Rightarrow> error option" where
  "check_entries loaded [] = None"
| "check_entries loaded (op_entry # rest) =
     (case check_entry loaded op_entry of
        Some err \<Rightarrow> Some err
      | None \<Rightarrow> check_entries loaded rest)"

text \<open>
  The body of \<open>for rule in self.rules\<close>. A rule that is not a dict leaves it with a
  \<open>TypeError\<close> or an \<open>AttributeError\<close>: \<open>'operators' not in rule\<close> is a membership test
  on a list, a substring test on a str and a \<open>TypeError\<close> on anything else; where it
  says the key is there, \<open>rule['operators']\<close> is a \<open>TypeError\<close>, and where it says it is
  not, the message calls \<open>rule.get\<close>, which is an \<open>AttributeError\<close>.
\<close>

definition check_rule :: "string list \<Rightarrow> json \<Rightarrow> error option" where
  "check_rule loaded rule =
     (case rule of
        JObj kvs \<Rightarrow>
          (case map_of kvs ''operators'' of
             None \<Rightarrow> Some (ValueError MissingOperatorsField)
           | Some (JList entries) \<Rightarrow> check_entries loaded entries
           | Some _ \<Rightarrow> Some (ValueError OperatorsNotAList))
      | JList xs \<Rightarrow> if JStr ''operators'' \<in> set xs then Some TypeError else Some AttributeError
      | JStr s \<Rightarrow> if py_find ''operators'' s \<noteq> None then Some TypeError else Some AttributeError
      | _ \<Rightarrow> Some TypeError)"

fun check_rules :: "string list \<Rightarrow> json list \<Rightarrow> error option" where
  "check_rules loaded [] = None"
| "check_rules loaded (rule # rest) =
     (case check_rule loaded rule of
        Some err \<Rightarrow> Some err
      | None \<Rightarrow> check_rules loaded rest)"

text \<open>
  \<open>_load_strategy\<close> from the parsed document on, given the names of the loaded
  operators: \<open>self.rules\<close> when the validation passes, the exception otherwise.
  \<open>data.get\<close> needs a dict; the \<open>for\<close> iterates a list by its items, a dict by its keys
  and a str by its characters.
\<close>

definition load_strategy :: "string list \<Rightarrow> json \<Rightarrow> error + json" where
  "load_strategy loaded data =
     (case data of
        JObj kvs \<Rightarrow>
          (let rules_value = (case map_of kvs ''rules'' of None \<Rightarrow> JList [] | Some v \<Rightarrow> v) in
           case (case rules_value of
                   JList rs \<Rightarrow> Inr rs
                 | JObj items \<Rightarrow> Inr (map (\<lambda>k. JStr k) (remdups (map fst items)))
                 | JStr s \<Rightarrow> Inr (map (\<lambda>c. JStr [c]) s)
                 | _ \<Rightarrow> Inl TypeError) of
             Inl err \<Rightarrow> Inl err
           | Inr rs \<Rightarrow>
               (case check_rules loaded rs of
                  Some err \<Rightarrow> Inl err
                | None \<Rightarrow> Inr rules_value))
      | _ \<Rightarrow> Inl AttributeError)"

section \<open>Notions the properties are stated with\<close>

text \<open>
  A byte string is a mutated result of a call when it is the latin-1 encoding of the
  string that a loaded operator returns on the latin-1 decoding of the call's data, in
  some outside state.
\<close>

definition mutated_result :: "'w engine \<Rightarrow> bytes \<Rightarrow> pydict \<Rightarrow> bytes \<Rightarrow> string \<Rightarrow> bool" where
  "mutated_result e data mutation_context b op_name \<longleftrightarrow>
     (\<exists>op_func w s w'. map_of (operators e) op_name = Some op_func \<and>
        op_func (decode_latin1 data) mutation_context w = (OpStr s, w') \<and>
        encode_latin1 s = Inr b)"

text \<open>
  A sequence of \<open>mutate\<close> calls on one engine, each with its data, context, count and the
  outside state it starts in. A call that raises leaves the history as it was at the
  exception; the next call goes on from there.
\<close>

fun mutate_calls ::
  "utils \<Rightarrow> 'w pylib \<Rightarrow> 'w engine \<Rightarrow> (bytes \<times> pydict \<times> int \<times> 'w) list \<Rightarrow> 'w engine" where
  "mutate_calls U L e [] = e"
| "mutate_calls U L e ((data, mutation_context, n, w) # calls) =
     mutate_calls U L (fst (snd (mutate U L e data mutation_context n w))) calls"

text \<open>A rule matches a context when its condition is absent or null, or evaluates true.\<close>

definition matches :: "utils \<Rightarrow> pydict \<Rightarrow> rule \<Rightarrow> bool" where
  "matches U mutation_context r =
     (case rule_condition r of
        None \<Rightarrow> True
      | Some c \<Rightarrow> eval_predicate_expression U c mutation_context)"

text \<open>
  Every one of the \<open>k\<close> attempts left returns a string that latin-1 encodes and whose
  digest is in the history already.
\<close>

fun attempts_all_collide ::
  "'w pylib \<Rightarrow> 'w operator \<Rightarrow> bytes \<Rightarrow> pydict \<Rightarrow> nat \<Rightarrow> digest list \<Rightarrow> 'w \<Rightarrow> bool" where
  "attempts_all_collide L op_func data mutation_context 0 h w = True"
| "attempts_all_collide L op_func data mutation_context (Suc k) h w =
     (case op_func (decode_latin1 data) mutation_context w of
        (OpStr s, w') \<Rightarrow>
          (case encode_latin1 s of
             Inr b \<Rightarrow> md5 L b \<in> set h \<and> attempts_all_collide L op_func data mutation_context k h w'
           | Inl c \<Rightarrow> False)
      | _ \<Rightarrow> False)"


text \<open>
  The display key of a spec item: the name of a \<open>value\<close>, \<open>sum\<close> or \<open>set\<close> item, the
  expression of a \<open>predicate\<close> or \<open>counter\<close> item.
\<close>

definition display_key :: "spec_item \<Rightarrow> string option" where
  "display_key item =
     (if item_type item \<in> {''value'', ''sum'', ''set''} then item_name item
      else if item_type item \<in> {''predicate'', ''counter''} then item_expr item
      else None)"

definition known_type :: "spec_item \<Rightarrow> bool" where
  "known_type item \<longleftrightarrow> item_type item \<in> {''value'', ''sum'', ''predicate'', ''counter'', ''set''}"

text \<open>
  The label \<open>_dict_to_state_tuple\<close> writes before a value: the key with its kind in
  parentheses for four of the kinds, the bare expression for a predicate.
\<close>

definition code_label :: "spec_item \<Rightarrow> string \<Rightarrow> string" where
  "code_label item key =
     (if item_type item = ''value'' then key @ '' (value)''
      else if item_type item = ''sum'' then key @ '' (sum)''
      else if item_type item = ''counter'' then key @ '' (count)''
      else if item_type item = ''set'' then key @ '' (set)''
      else key)"

definition labelled_pair :: "pydict \<Rightarrow> spec_item \<Rightarrow> pyval list" where
  "labelled_pair state_dict item =
     (case display_key item of
        None \<Rightarrow> []
      | Some key \<Rightarrow>
          (case state_dict key of
             None \<Rightarrow> []
           | Some v \<Rightarrow> [VStr (code_label item key), v]))"

text \<open>
  The truth value of what an environment holds for a name, when that is an int: true
  unless it is 0. A name bound to anything else, or unbound, counts as false here.
\<close>

definition truthy :: "pyval option \<Rightarrow> bool" where
  "truthy v = (case v of Some (VInt n) \<Rightarrow> n \<noteq> 0 | _ \<Rightarrow> False)"

text \<open>An entry the validation of \<open>_load_strategy\<close> lets through.\<close>

definition valid_entry :: "string list \<Rightarrow> json \<Rightarrow> bool" where
  "valid_entry loaded op_entry \<longleftrightarrow>
     (\<exists>op_name weight. op_entry = JList [JStr op_name, weight] \<and> op_name \<in> set loaded \<and>
        \<not> invalid_weight weight)"

section \<open>Concrete inputs\<close>

text \<open>
  The runs below fix the parameters: a digest that tells short byte strings apart, a
  draw that lands on the first entry, a \<open>pop\<close> that removes the first entry, an
  evaluator that reads the two expressions of the runs (a conjunction of two names, a
  comparison of \<open>n\<close> with 0) and takes any other expression as false, and a coercion
  that knows ints.
\<close>

definition demo_md5 :: "bytes \<Rightarrow> digest" where
  "demo_md5 b = foldl (\<lambda>a x. 256 * a + ucast x) 1 b"

definition demo_lib :: "unit pylib" where
  "demo_lib = \<lparr>md5 = demo_md5, random_choices = (\<lambda>entries w. (Inr 0, w)), set_pop = (\<lambda>h. 0)\<rparr>"

definition demo_utils :: utils where
  "demo_utils =
     \<lparr>eval_predicate_expression =
        (\<lambda>expr env.
           if expr = ''a and b'' then truthy (env ''a'') \<and> truthy (env ''b'')
           else if expr = ''n == 0'' then env ''n'' = Some (VInt 0)
           else False),
      coerce_value_to_int = (\<lambda>v. case v of VInt n \<Rightarrow> Some n | _ \<Rightarrow> None)\<rparr>"

definition op_same :: "unit operator" where
  "op_same data_str mutation_context w = (OpStr [115, 97, 109, 101], w)"


definition unconditional :: "string \<Rightarrow> rule" where
  "unconditional op_name =
     \<lparr>rule_name = None, rule_condition = None, rule_operators = [(op_name, JInt 1)]\<rparr>"

definition guarded :: "string \<Rightarrow> string \<Rightarrow> rule" where
  "guarded c op_name =
     \<lparr>rule_name = None, rule_condition = Some c, rule_operators = [(op_name, JInt 1)]\<rparr>"




definition same_engine :: "unit engine" where
  "same_engine = init_engine [(''same'', op_same)] [unconditional ''same'']"


definition guarded_engine :: "unit engine" where
  "guarded_engine = init_engine [(''same'', op_same)] [guarded ''n == 0'' ''same'']"

definition pred_item :: "string \<Rightarrow> spec_item" where
  "pred_item expr = \<lparr>item_type = ''predicate'', item_name = None, item_expr = Some expr\<rparr>"
definition counter_item :: "string \<Rightarrow> spec_item" where
  "counter_item expr = \<lparr>item_type = ''counter'', item_name = None, item_expr = Some expr\<rparr>"
definition value_item :: "string \<Rightarrow> spec_item" where
  "value_item name = \<lparr>item_type = ''value'', item_name = Some name, item_expr = None\<rparr>"
definition sum_item :: "string \<Rightarrow> spec_item" where
  "sum_item name = \<lparr>item_type = ''sum'', item_name = Some name, item_expr = None\<rparr>"
definition set_item :: "string \<Rightarrow> spec_item" where
  "set_item name = \<lparr>item_type = ''set'', item_name = Some name, item_expr = None\<rparr>"

definition demo_builtins :: builtins where
  "demo_builtins = \<lparr>py_str = (\<lambda>v. ''?''), py_float = (\<lambda>s. None), int_max_str_digits = 4300\<rparr>"

definition scenario_samples :: samples where
  "scenario_samples = [(''a'', [VInt 1, VInt 0, VInt 1]), (''b'', [VInt 0, VInt 0, VInt 1])]"

definition bool_stdout :: string where
  "bool_stdout =
     ''flag: TRUE'' @ [CHR 0x0A] @ ''flag: no'' @ [CHR 0x0A] @ ''flag: '' @ [CHR 0xB2] @ [CHR 0x0A] @
     ''flag: maybe'' @ [CHR 0x0A] @ ''flag: 1''"

definition edge_sample :: "bytes \<Rightarrow> execution_result" where
  "edge_sample bitmap =
     \<lparr>sample_cov_bitmap = Some bitmap,
      sample_branch_taken_bitmap = None,
      sample_branch_fallthrough_bitmap = None,
      sample_instr_address_set = None,
      sample_total_instructions = 10,
      sample_pathlen_blocks = 3,
      sample_call_depth = 1,
      sample_execution_time = 0\<rparr>"

definition one_sample_tracker :: tracker where
  "one_sample_tracker = snd (add_sample (init_tracker 4 1 0 0) (edge_sample [1, 0, 0, 0]) 5)"

definition empty_rule_strategy :: json where
  "empty_rule_strategy =
     JObj [(''rules'', JList [JObj [(''name'', JStr ''r''), (''operators'', JList [])]])]"

definition empty_rule :: rule where
  "empty_rule = \<lparr>rule_name = Some ''r'', rule_condition = None, rule_operators = []\<rparr>"

section \<open>Mutation engine: lemmas\<close>



lemma retry_loop_Some:
  "retry_loop L f data ctx k h w = (Inr (Some b), h', w') \<Longrightarrow>
     \<exists>w1 s w2. f (decode_latin1 data) ctx w1 = (OpStr s, w2) \<and> encode_latin1 s = Inr b"
proof (induction k arbitrary: w)
  case 0
  then show ?case by simp
next
  case (Suc k)
  then show ?case
    by (auto simp: Let_def split: prod.splits op_result.splits sum.splits if_splits)
qed

lemma retry_loop_history:
  "retry_loop L f data ctx k h w = (res, h', w') \<Longrightarrow>
     (case res of Inr (Some b) \<Rightarrow> md5 L b \<notin> set h \<and> h' = h @ [md5 L b] | _ \<Rightarrow> h' = h)"
proof (induction k arbitrary: w)
  case 0
  then show ?case by auto
next
  case (Suc k)
  then show ?case
    by (auto simp: Let_def split: prod.splits op_result.splits sum.splits if_splits option.splits)
qed

lemma history_pop_length:
  assumes "history_pop L h = Inr h'"
  shows "Suc (length h') = length h"
proof -
  from assms have ne: "h \<noteq> []"
    by (auto simp: history_pop_def split: if_splits)
  define i where "i = set_pop L h mod length h"
  from ne have "i < length h" by (simp add: i_def)
  moreover from assms ne have "h' = take i h @ drop (Suc i) h"
    by (simp add: history_pop_def Let_def i_def)
  ultimately show ?thesis by simp
qed

lemma history_pop_set:
  "history_pop L h = Inr h' \<Longrightarrow> set h' \<subseteq> set h"
  by (auto simp: history_pop_def Let_def split: if_splits dest: in_set_takeD in_set_dropD)

lemma history_pop_distinct:
  assumes "history_pop L h = Inr h'" "distinct h"
  shows "distinct h'"
proof -
  from assms have ne: "h \<noteq> []"
    by (auto simp: history_pop_def split: if_splits)
  define i where "i = set_pop L h mod length h"
  from assms ne have h': "h' = take i h @ drop (Suc i) h"
    by (simp add: history_pop_def Let_def i_def)
  have "set (take i h) \<inter> set (drop (Suc i) h) = {}"
    using assms(2) by (rule set_take_disj_set_drop_if_distinct) simp
  with assms(2) show ?thesis by (simp add: h')
qed


lemma retry_loop_cases:
  assumes "retry_loop L f data ctx k h w = (res, h', w')"
  shows "(\<exists>c. res = Inl c \<and> h' = h) \<or> (res = Inr None \<and> h' = h) \<or>
         (\<exists>b w1 s w2. res = Inr (Some b) \<and> f (decode_latin1 data) ctx w1 = (OpStr s, w2) \<and>
             encode_latin1 s = Inr b \<and> md5 L b \<notin> set h \<and> h' = h @ [md5 L b])"
proof (cases res)
  case (Inl c)
  with retry_loop_history [OF assms] show ?thesis by simp
next
  case (Inr r)
  show ?thesis
  proof (cases r)
    case None
    with Inr retry_loop_history [OF assms] show ?thesis by simp
  next
    case (Some b)
    with Inr assms have "retry_loop L f data ctx k h w = (Inr (Some b), h', w')" by simp
    from retry_loop_Some [OF this] retry_loop_history [OF assms] Inr Some
    show ?thesis by auto
  qed
qed

lemma mutate_loop_SucE:
  assumes "mutate_loop U L e data ctx (Suc k) muts h w = (res, h', w')"
  obtains (fail) err where "res = Inl err" "h' = h"
  | (step) muts2 h2 h3 w2 where
      "mutate_loop U L e data ctx k muts2 h3 w2 = (res, h', w')"
      "(muts2 = muts \<and> h2 = h) \<or>
       (\<exists>b nm. muts2 = muts @ [(b, nm)] \<and> mutated_result e data ctx b nm \<and>
          md5 L b \<notin> set h \<and> h2 = h @ [md5 L b])"
      "(length h2 < max_mutation_history_size e \<and> h3 = h2) \<or>
       (max_mutation_history_size e \<le> length h2 \<and> history_pop L h2 = Inr h3)"
proof (cases "select_rule U (rules e) ctx")
  case None
  with assms show ?thesis by (auto intro: fail)
next
  case (Some r)
  obtain so w1 where so: "select_operator L r w = (so, w1)" by (cases "select_operator L r w")
  show ?thesis
  proof (cases so)
    case (Inl err)
    with assms Some so show ?thesis by (auto intro: fail)
  next
    case (Inr nm)
    show ?thesis
    proof (cases "map_of (operators e) nm")
      case None
      with assms Some so Inr show ?thesis by (auto intro: fail)
    next
      case (Some f)
      obtain rr h2 w2 where rl: "retry_loop L f data ctx (max_retries e) h w1 = (rr, h2, w2)"
        by (cases "retry_loop L f data ctx (max_retries e) h w1")
      note rc = retry_loop_cases [OF rl]
      show ?thesis
      proof (cases rr)
        case (Inl c)
        with rc have "h2 = h" by simp
        with assms \<open>select_rule U (rules e) ctx = Some r\<close> so Inr Some rl Inl
        show ?thesis by (auto intro: fail)
      next
        case rInr: (Inr ro)
        define muts2 where "muts2 = (case ro of None \<Rightarrow> muts | Some b \<Rightarrow> muts @ [(b, nm)])"
        have rel: "(muts2 = muts \<and> h2 = h) \<or>
           (\<exists>b nm. muts2 = muts @ [(b, nm)] \<and> mutated_result e data ctx b nm \<and>
              md5 L b \<notin> set h \<and> h2 = h @ [md5 L b])"
          using rc rInr Some by (cases ro) (auto simp: muts2_def mutated_result_def)
        show ?thesis
        proof (cases "max_mutation_history_size e \<le> length h2")
          case False
          with assms \<open>select_rule U (rules e) ctx = Some r\<close> so Inr Some rl rInr
          have "mutate_loop U L e data ctx k muts2 h2 w2 = (res, h', w')"
            by (simp add: muts2_def)
          with rel False show ?thesis by (intro step [of muts2 h2 w2 h2]) auto
        next
          case True
          show ?thesis
          proof (cases "history_pop L h2")
            case (Inl err)
            then have "h2 = []" by (auto simp: history_pop_def Let_def split: if_splits)
            with rel have "h2 = h" by auto
            with assms \<open>select_rule U (rules e) ctx = Some r\<close> so Inr Some rl rInr True Inl
            show ?thesis by (auto intro: fail)
          next
            case pInr: (Inr h3)
            with assms \<open>select_rule U (rules e) ctx = Some r\<close> so Inr Some rl rInr True
            have "mutate_loop U L e data ctx k muts2 h3 w2 = (res, h', w')"
              by (simp add: muts2_def)
            with rel True pInr show ?thesis by (intro step [of muts2 h3 w2 h2]) auto
          qed
        qed
      qed
    qed
  qed
qed


lemma mutate_loop_length:
  "mutate_loop U L e data ctx k muts h w = (Inr outs, h', w') \<Longrightarrow>
     length outs \<le> length muts + k"
proof (induction k arbitrary: muts h w)
  case 0
  then show ?case by simp
next
  case (Suc k)
  from Suc.prems show ?case
  proof (cases rule: mutate_loop_SucE)
    case (fail err)
    then show ?thesis by simp
  next
    case (step muts2 h2 h3 w2)
    from Suc.IH [OF step(1)] step(2) show ?thesis by auto
  qed
qed


lemma mutate_loop_bound:
  "mutate_loop U L e data ctx k muts h w = (res, h', w') \<Longrightarrow>
     length h < max_mutation_history_size e \<Longrightarrow> length h' < max_mutation_history_size e"
proof (induction k arbitrary: muts h w)
  case 0
  then show ?case by simp
next
  case (Suc k)
  from Suc.prems(1) show ?case
  proof (cases rule: mutate_loop_SucE)
    case (fail err)
    with Suc.prems(2) show ?thesis by simp
  next
    case (step muts2 h2 h3 w2)
    have "length h3 < max_mutation_history_size e"
      using step(2,3) Suc.prems(2) by (auto dest!: history_pop_length)
    from Suc.IH [OF step(1) this] show ?thesis .
  qed
qed

lemma mutate_loop_distinct:
  "mutate_loop U L e data ctx k muts h w = (res, h', w') \<Longrightarrow> distinct h \<Longrightarrow> distinct h'"
proof (induction k arbitrary: muts h w)
  case 0
  then show ?case by simp
next
  case (Suc k)
  from Suc.prems(1) show ?case
  proof (cases rule: mutate_loop_SucE)
    case (fail err)
    with Suc.prems(2) show ?thesis by simp
  next
    case (step muts2 h2 h3 w2)
    have "distinct h3"
      using step(2,3) Suc.prems(2) by (auto dest: history_pop_distinct)
    from Suc.IH [OF step(1) this] show ?thesis .
  qed
qed

lemma mutate_loop_digests:
  "mutate_loop U L e data ctx k muts h w = (res, h', w') \<Longrightarrow> d \<in> set h' \<Longrightarrow>
     d \<in> set h \<or> (\<exists>b nm. mutated_result e data ctx b nm \<and> d = md5 L b)"
proof (induction k arbitrary: muts h w)
  case 0
  then show ?case by simp
next
  case (Suc k)
  from Suc.prems(1) show ?case
  proof (cases rule: mutate_loop_SucE)
    case (fail err)
    with Suc.prems(2) show ?thesis by simp
  next
    case (step muts2 h2 h3 w2)
    from Suc.IH [OF step(1) Suc.prems(2)]
    have "d \<in> set h3 \<or> (\<exists>b nm. mutated_result e data ctx b nm \<and> d = md5 L b)" .
    moreover have "set h3 \<subseteq> set h2"
      using step(3) by (auto dest: history_pop_set)
    ultimately show ?thesis using step(2) by (elim disjE conjE exE; simp; blast)
  qed
qed

lemma mutate_fields:
  "operators (fst (snd (mutate U L e data ctx n w))) = operators e"
  "rules (fst (snd (mutate U L e data ctx n w))) = rules e"
  "max_mutation_history_size (fst (snd (mutate U L e data ctx n w))) = max_mutation_history_size e"
  "max_retries (fst (snd (mutate U L e data ctx n w))) = max_retries e"
  by (simp_all add: mutate_def split: prod.splits)

lemma mutate_cases:
  assumes "mutate U L e data ctx n w = (res, e', w')"
  shows "(e' = e \<and> (\<exists>err. res = Inl err)) \<or>
         (\<exists>h'. mutate_loop U L e data ctx (nat n) [] (mutation_history e) w = (res, h', w') \<and>
               e' = e\<lparr>mutation_history := h'\<rparr>)"
  using assms by (auto simp: mutate_def split: if_splits prod.splits)

lemma select_rule_None: "select_rule U rs ctx = None \<longleftrightarrow> (\<forall>x \<in> set rs. \<not> matches U ctx x)"
  by (induction rs) (auto simp: matches_def split: option.splits)

lemma select_rule_Some:
  "select_rule U rs ctx = Some r \<longleftrightarrow>
     (\<exists>pre post. rs = pre @ r # post \<and> matches U ctx r \<and> (\<forall>x \<in> set pre. \<not> matches U ctx x))"
proof (induction rs)
  case Nil
  then show ?case by simp
next
  case (Cons a rs)
  show ?case
  proof (cases "matches U ctx a")
    case True
    then have "select_rule U (a # rs) ctx = Some a"
      by (auto simp: matches_def split: option.splits)
    moreover have "(\<exists>pre post. a # rs = pre @ r # post \<and> matches U ctx r \<and>
        (\<forall>x \<in> set pre. \<not> matches U ctx x)) \<longleftrightarrow> r = a"
    proof
      assume "\<exists>pre post. a # rs = pre @ r # post \<and> matches U ctx r \<and>
        (\<forall>x \<in> set pre. \<not> matches U ctx x)"
      then obtain pre post where *: "a # rs = pre @ r # post" "\<forall>x \<in> set pre. \<not> matches U ctx x"
        by blast
      with True show "r = a" by (cases pre) auto
    next
      assume "r = a"
      with True show "\<exists>pre post. a # rs = pre @ r # post \<and> matches U ctx r \<and>
        (\<forall>x \<in> set pre. \<not> matches U ctx x)"
        by (intro exI [of _ "[]"] exI [of _ rs]) simp
    qed
    ultimately show ?thesis by auto
  next
    case False
    then have "select_rule U (a # rs) ctx = select_rule U rs ctx"
      by (auto simp: matches_def split: option.splits)
    moreover have "(\<exists>pre post. a # rs = pre @ r # post \<and> matches U ctx r \<and>
        (\<forall>x \<in> set pre. \<not> matches U ctx x)) \<longleftrightarrow>
      (\<exists>pre post. rs = pre @ r # post \<and> matches U ctx r \<and> (\<forall>x \<in> set pre. \<not> matches U ctx x))"
      (is "?L \<longleftrightarrow> ?R")
    proof
      assume ?L
      then obtain pre post where *: "a # rs = pre @ r # post" "matches U ctx r"
        "\<forall>x \<in> set pre. \<not> matches U ctx x" by blast
      with False obtain pre' where "pre = a # pre'" by (cases pre) auto
      with * show ?R by auto
    next
      assume ?R
      then obtain pre post where "rs = pre @ r # post" "matches U ctx r"
        "\<forall>x \<in> set pre. \<not> matches U ctx x" by blast
      with False show ?L by (intro exI [of _ "a # pre"] exI [of _ post]) simp
    qed
    ultimately show ?thesis using Cons.IH by simp
  qed
qed

lemma select_rule_first:
  "matches U ctx r \<Longrightarrow> \<forall>x \<in> set pre. \<not> matches U ctx x \<Longrightarrow>
     select_rule U (pre @ r # post) ctx = Some r"
  using select_rule_Some [of U "pre @ r # post" ctx r] by blast

lemma mutate_no_rule:
  assumes "operators e \<noteq> []" "rules e \<noteq> []" "0 < n" "select_rule U (rules e) ctx = None"
  shows "mutate U L e data ctx n w = (Inl (ValueError NoMatchingRule), e, w)"
proof -
  from assms(3) obtain k where "nat n = Suc k" by (cases "nat n") auto
  with assms show ?thesis by (simp add: mutate_def)
qed

lemma retry_loop_collide:
  "attempts_all_collide L f data ctx k h w \<Longrightarrow> \<exists>w'. retry_loop L f data ctx k h w = (Inr None, h, w')"
proof (induction k arbitrary: w)
  case 0
  then show ?case by simp
next
  case (Suc k)
  then show ?case
    by (auto simp: Let_def split: prod.splits op_result.splits sum.splits)
qed

lemma mutate_single_dropped:
  assumes "operators e \<noteq> []" "select_rule U (rules e) ctx = Some r"
    "select_operator L r w = (Inr nm, w1)" "map_of (operators e) nm = Some f"
    "attempts_all_collide L f data ctx (max_retries e) (mutation_history e) w1"
    "length (mutation_history e) < max_mutation_history_size e"
  shows "fst (mutate U L e data ctx 1 w) = Inr [] \<and> fst (snd (mutate U L e data ctx 1 w)) = e"
proof -
  from assms(2) have "rules e \<noteq> []" by auto
  moreover from retry_loop_collide [OF assms(5)] obtain w' where
    "retry_loop L f data ctx (max_retries e) (mutation_history e) w1 = (Inr None, mutation_history e, w')"
    by blast
  ultimately show ?thesis using assms by (simp add: mutate_def)
qed

lemma mutate_length:
  assumes "fst (mutate U L e data ctx n w) = Inr outs"
  shows "length outs \<le> nat n"
proof -
  obtain res e' w' where m: "mutate U L e data ctx n w = (res, e', w')"
    by (cases "mutate U L e data ctx n w")
  with assms have "res = Inr outs" by simp
  with mutate_cases [OF m] obtain h' where
    "mutate_loop U L e data ctx (nat n) [] (mutation_history e) w = (Inr outs, h', w')"
    by auto
  from mutate_loop_length [OF this] show ?thesis by simp
qed







lemma mutate_calls_fields:
  "operators (mutate_calls U L e calls) = operators e"
  "max_mutation_history_size (mutate_calls U L e calls) = max_mutation_history_size e"
  by (induction calls arbitrary: e) (auto simp: mutate_fields)

lemma mutate_bound:
  assumes "length (mutation_history e) < max_mutation_history_size e"
  shows "length (mutation_history (fst (snd (mutate U L e data ctx n w)))) < max_mutation_history_size e"
proof -
  obtain res e' w' where m: "mutate U L e data ctx n w = (res, e', w')"
    by (cases "mutate U L e data ctx n w")
  from mutate_cases [OF m] assms show ?thesis
    by (auto simp: m dest: mutate_loop_bound)
qed

lemma mutate_distinct:
  assumes "distinct (mutation_history e)"
  shows "distinct (mutation_history (fst (snd (mutate U L e data ctx n w))))"
proof -
  obtain res e' w' where m: "mutate U L e data ctx n w = (res, e', w')"
    by (cases "mutate U L e data ctx n w")
  from mutate_cases [OF m] assms show ?thesis
    by (auto simp: m dest: mutate_loop_distinct)
qed

lemma mutate_digests:
  assumes "d \<in> set (mutation_history (fst (snd (mutate U L e data ctx n w))))"
  shows "d \<in> set (mutation_history e) \<or> (\<exists>b nm. mutated_result e data ctx b nm \<and> d = md5 L b)"
proof -
  obtain res e' w' where m: "mutate U L e data ctx n w = (res, e', w')"
    by (cases "mutate U L e data ctx n w")
  from mutate_cases [OF m] show ?thesis
  proof (elim disjE conjE exE)
    assume "e' = e"
    with assms m show ?thesis by simp
  next
    fix h'
    assume l: "mutate_loop U L e data ctx (nat n) [] (mutation_history e) w = (res, h', w')"
      and "e' = e\<lparr>mutation_history := h'\<rparr>"
    with assms m have "d \<in> set h'" by simp
    from mutate_loop_digests [OF l this] show ?thesis .
  qed
qed

lemma mutated_result_cong:
  "operators e' = operators e \<Longrightarrow> mutated_result e' data ctx b nm = mutated_result e data ctx b nm"
  by (simp add: mutated_result_def)

lemma mutate_calls_bound:
  "length (mutation_history e) < max_mutation_history_size e \<Longrightarrow>
     length (mutation_history (mutate_calls U L e calls)) < max_mutation_history_size e"
proof (induction calls arbitrary: e)
  case Nil
  then show ?case by simp
next
  case (Cons c calls)
  obtain data ctx n w where c: "c = (data, ctx, n, w)" by (cases c)
  from Cons.IH [of "fst (snd (mutate U L e data ctx n w))"] mutate_bound [OF Cons.prems]
  show ?case by (simp add: c mutate_fields)
qed

lemma mutate_calls_distinct:
  "distinct (mutation_history e) \<Longrightarrow> distinct (mutation_history (mutate_calls U L e calls))"
proof (induction calls arbitrary: e)
  case Nil
  then show ?case by simp
next
  case (Cons c calls)
  obtain data ctx n w where c: "c = (data, ctx, n, w)" by (cases c)
  from Cons.IH [of "fst (snd (mutate U L e data ctx n w))"] mutate_distinct [OF Cons.prems]
  show ?case by (simp add: c)
qed

lemma mutate_calls_digests:
  "d \<in> set (mutation_history (mutate_calls U L e calls)) \<Longrightarrow>
     d \<in> set (mutation_history e) \<or>
     (\<exists>(data, ctx, n, w) \<in> set calls. \<exists>b nm. mutated_result e data ctx b nm \<and> d = md5 L b)"
proof (induction calls arbitrary: e)
  case Nil
  then show ?case by simp
next
  case (Cons c calls)
  obtain data ctx n w where c: "c = (data, ctx, n, w)" by (cases c)
  let ?e = "fst (snd (mutate U L e data ctx n w))"
  from Cons.prems have "d \<in> set (mutation_history (mutate_calls U L ?e calls))"
    by (simp add: c)
  from Cons.IH [OF this] have
    "d \<in> set (mutation_history ?e) \<or>
     (\<exists>(data, ctx, n, w) \<in> set calls. \<exists>b nm. mutated_result ?e data ctx b nm \<and> d = md5 L b)" .
  then show ?case
  proof
    assume "d \<in> set (mutation_history ?e)"
    from mutate_digests [OF this] show ?thesis by (auto simp: c)
  next
    assume "\<exists>(data, ctx, n, w) \<in> set calls. \<exists>b nm. mutated_result ?e data ctx b nm \<and> d = md5 L b"
    then obtain x where x: "x \<in> set calls"
      "case x of (data, ctx, n, w) \<Rightarrow> \<exists>b nm. mutated_result ?e data ctx b nm \<and> d = md5 L b"
      by blast
    have "mutated_result ?e = mutated_result e"
      by (intro ext) (simp add: mutated_result_def mutate_fields)
    with x(2) have "case x of (data, ctx, n, w) \<Rightarrow> \<exists>b nm. mutated_result e data ctx b nm \<and> d = md5 L b"
      by simp
    with x(1) have "\<exists>x \<in> set (c # calls).
        case x of (data, ctx, n, w) \<Rightarrow> \<exists>b nm. mutated_result e data ctx b nm \<and> d = md5 L b"
      by (intro bexI [of _ x]) simp_all
    then show ?thesis by blast
  qed
qed

section \<open>Mutation engine: the claims\<close>

text \<open>
  Claim C1, as the code has it. \<open>mutate\<close> returns at most \<open>n\<close> pairs. A mutation whose
  attempts all produce digests that are in the history already produces no output: the
  retry loop ends without appending, and the history stays as it was. So a call for one
  mutation whose operator collides on each of the \<open>max_retries\<close> attempts returns the
  empty list and leaves the engine unchanged.
\<close>

theorem mutate_emits_at_most_n_and_drops_exhausted:
  "(fst (mutate U L e data mutation_context n w) = Inr outs \<longrightarrow> length outs \<le> nat n) \<and>
   (attempts_all_collide L op_func data mutation_context k h v \<longrightarrow>
      (\<exists>w'. retry_loop L op_func data mutation_context k h v = (Inr None, h, w'))) \<and>
   (operators e \<noteq> [] \<and> select_rule U (rules e) mutation_context = Some r \<and>
    select_operator L r w = (Inr op_name, v) \<and> map_of (operators e) op_name = Some op_func \<and>
    attempts_all_collide L op_func data mutation_context (max_retries e) (mutation_history e) v \<and>
    length (mutation_history e) < max_mutation_history_size e \<longrightarrow>
      fst (mutate U L e data mutation_context 1 w) = Inr [] \<and>
      fst (snd (mutate U L e data mutation_context 1 w)) = e)"
  using mutate_length [of U L e data mutation_context n w outs]
    retry_loop_collide [of L op_func data mutation_context k h v]
    mutate_single_dropped [of e U mutation_context r L w op_name v op_func data]
  by blast

theorem mutate_emits_at_most_n_and_drops_exhausted_witness:
  "fst (mutate demo_utils demo_lib same_engine [0x78] Map.empty 1 ()) = Inr [([115, 97, 109, 101], ''same'')] \<and>
   length [([115, 97, 109, 101] :: bytes, ''same'')] \<le> nat 1 \<and>
   attempts_all_collide demo_lib op_same [0x78] Map.empty 5 [demo_md5 [115, 97, 109, 101]] () \<and>
   retry_loop demo_lib op_same [0x78] Map.empty 5 [demo_md5 [115, 97, 109, 101]] () =
     (Inr None, [demo_md5 [115, 97, 109, 101]], ()) \<and>
   fst (mutate demo_utils demo_lib (same_engine\<lparr>mutation_history := [demo_md5 [115, 97, 109, 101]]\<rparr>)
          [0x78] Map.empty 1 ()) = Inr []"
proof -
  let ?e = "same_engine\<lparr>mutation_history := [demo_md5 [115, 97, 109, 101]]\<rparr>"
  have a: "fst (mutate demo_utils demo_lib same_engine [0x78] Map.empty 1 ()) =
      Inr [([115, 97, 109, 101], ''same'')]"
    by code_simp
  have b: "attempts_all_collide demo_lib op_same [0x78] Map.empty 5 [demo_md5 [115, 97, 109, 101]] ()"
    by code_simp
  have c: "operators ?e \<noteq> []" "select_rule demo_utils (rules ?e) Map.empty = Some (unconditional ''same'')"
    "select_operator demo_lib (unconditional ''same'') () = (Inr ''same'', ())"
    "map_of (operators ?e) ''same'' = Some op_same"
    "length (mutation_history ?e) < max_mutation_history_size ?e"
    by (simp_all add: same_engine_def init_engine_def unconditional_def select_operator_def demo_lib_def)
  have d: "attempts_all_collide demo_lib op_same [0x78] Map.empty (max_retries ?e) (mutation_history ?e) ()"
    using b by (simp add: same_engine_def init_engine_def)
  note T = mutate_emits_at_most_n_and_drops_exhausted
    [where U = demo_utils and L = demo_lib and e = ?e and data = "[0x78]"
       and mutation_context = Map.empty and n = 1 and w = "()" and v = "()"
       and op_func = op_same and op_name = "''same''" and r = "unconditional ''same''"
       and k = 5 and h = "[demo_md5 [115, 97, 109, 101]]"
       and outs = "[]"]
  from T b c d show ?thesis using a by auto
qed

text \<open>
  Claim C1 as stated fails: with an operator that always returns \<open>same\<close>, a call for
  three mutations on a fresh engine returns one pair, not three. The second and the
  third mutation use up their five attempts on the digest the first one recorded and
  emit nothing.
\<close>

theorem mutate_exhausted_counterexample:
  "fst (mutate demo_utils demo_lib same_engine [0x78] Map.empty 3 ()) =
     Inr [([115, 97, 109, 101], ''same'')]"
  by code_simp

text \<open>
  Claim C5, as the code has it. \<open>select_rule\<close> returns a rule exactly when it is the
  first rule in declaration order that matches, and \<open>None\<close> exactly when no rule
  matches. A \<open>mutate\<close> call for at least one mutation, on an engine with operators and
  rules, raises the no-matching-rule error when no rule matches, and leaves the engine
  as it was. A rule inserted anywhere after the first matching rule does not change the
  selection.
\<close>

theorem select_rule_first_match:
  "(select_rule U rs mutation_context = Some r \<longleftrightarrow>
      (\<exists>pre post. rs = pre @ r # post \<and> matches U mutation_context r \<and>
         (\<forall>x \<in> set pre. \<not> matches U mutation_context x))) \<and>
   (select_rule U rs mutation_context = None \<longleftrightarrow> (\<forall>x \<in> set rs. \<not> matches U mutation_context x)) \<and>
   (operators e \<noteq> [] \<and> rules e \<noteq> [] \<and> 0 < n \<and>
    (\<forall>x \<in> set (rules e). \<not> matches U mutation_context x) \<longrightarrow>
      mutate U L e data mutation_context n w = (Inl (ValueError NoMatchingRule), e, w)) \<and>
   (matches U mutation_context r' \<and> (\<forall>x \<in> set pre'. \<not> matches U mutation_context x) \<longrightarrow>
      select_rule U (pre' @ r' # post) mutation_context = Some r' \<and>
      select_rule U (pre' @ r' # before @ new # after) mutation_context = Some r')"
proof (intro conjI impI)
  show "select_rule U rs mutation_context = Some r \<longleftrightarrow>
      (\<exists>pre post. rs = pre @ r # post \<and> matches U mutation_context r \<and>
         (\<forall>x \<in> set pre. \<not> matches U mutation_context x))"
    by (rule select_rule_Some)
  show "select_rule U rs mutation_context = None \<longleftrightarrow> (\<forall>x \<in> set rs. \<not> matches U mutation_context x)"
    by (rule select_rule_None)
next
  assume "operators e \<noteq> [] \<and> rules e \<noteq> [] \<and> 0 < n \<and>
    (\<forall>x \<in> set (rules e). \<not> matches U mutation_context x)"
  then show "mutate U L e data mutation_context n w = (Inl (ValueError NoMatchingRule), e, w)"
    by (intro mutate_no_rule) (simp_all add: select_rule_None)
next
  assume a: "matches U mutation_context r' \<and> (\<forall>x \<in> set pre'. \<not> matches U mutation_context x)"
  then show "select_rule U (pre' @ r' # post) mutation_context = Some r'"
    by (intro select_rule_first) simp_all
  from a show "select_rule U (pre' @ r' # before @ new # after) mutation_context = Some r'"
    by (intro select_rule_first) simp_all
qed

theorem select_rule_first_match_witness:
  "select_rule demo_utils [guarded ''n == 0'' ''A'', unconditional ''B''] [''n'' \<mapsto> VInt 0] =
     Some (guarded ''n == 0'' ''A'') \<and>
   select_rule demo_utils [guarded ''n == 0'' ''A'', unconditional ''B''] [''n'' \<mapsto> VInt 1] =
     Some (unconditional ''B'') \<and>
   select_rule demo_utils
     [guarded ''n == 0'' ''A'', unconditional ''B'', guarded ''n == 0'' ''C'', unconditional ''D'']
     [''n'' \<mapsto> VInt 1] = Some (unconditional ''B'') \<and>
   select_rule demo_utils (rules guarded_engine) [''n'' \<mapsto> VInt 1] = None \<and>
   mutate demo_utils demo_lib guarded_engine [0x78] [''n'' \<mapsto> VInt 1] 2 () =
     (Inl (ValueError NoMatchingRule), guarded_engine, ())"
proof -
  let ?ctx = "[''n'' \<mapsto> VInt 1]"
  have m0: "matches demo_utils [''n'' \<mapsto> VInt 0] (guarded ''n == 0'' ''A'')"
    by (simp add: matches_def guarded_def demo_utils_def)
  have m1: "\<not> matches demo_utils ?ctx (guarded ''n == 0'' x)" for x
    by (simp add: matches_def guarded_def demo_utils_def)
  have m2: "matches demo_utils ?ctx (unconditional ''B'')"
    by (simp add: matches_def unconditional_def)
  have e: "operators guarded_engine \<noteq> []" "rules guarded_engine = [guarded ''n == 0'' ''same'']"
    by (simp_all add: guarded_engine_def init_engine_def)
  note A = select_rule_first_match
    [where U = demo_utils and mutation_context = "[''n'' \<mapsto> VInt 0]"
       and r' = "guarded ''n == 0'' ''A''" and pre' = "[]" and post = "[unconditional ''B'']"
       and rs = "[]" and e = guarded_engine and n = 0]
  note B = select_rule_first_match
    [where U = demo_utils and L = demo_lib and mutation_context = ?ctx
       and r' = "unconditional ''B''" and pre' = "[guarded ''n == 0'' ''A'']" and post = "[]"
       and before = "[guarded ''n == 0'' ''C'']" and new = "unconditional ''D''" and after = "[]"
       and rs = "rules guarded_engine" and e = guarded_engine and n = 2 and data = "[0x78]"
       and w = "()"]
  from A m0 have 1: "select_rule demo_utils [guarded ''n == 0'' ''A'', unconditional ''B'']
      [''n'' \<mapsto> VInt 0] = Some (guarded ''n == 0'' ''A'')"
    by simp
  from B m1 m2 have 2: "select_rule demo_utils [guarded ''n == 0'' ''A'', unconditional ''B''] ?ctx =
      Some (unconditional ''B'')"
    and 3: "select_rule demo_utils
      [guarded ''n == 0'' ''A'', unconditional ''B'', guarded ''n == 0'' ''C'', unconditional ''D'']
      ?ctx = Some (unconditional ''B'')"
    by simp_all
  from B m1 e have 4: "select_rule demo_utils (rules guarded_engine) ?ctx = None"
    and 5: "mutate demo_utils demo_lib guarded_engine [0x78] ?ctx 2 () =
      (Inl (ValueError NoMatchingRule), guarded_engine, ())"
    by simp_all
  from 1 2 3 4 5 show ?thesis by blast
qed

text \<open>
  Claim C5 as stated fails for a call that asks for no mutation: the loop body, where
  the rule is selected, never runs, and \<open>mutate\<close> returns the empty list although no
  rule matches.
\<close>

theorem mutate_no_rule_counterexample:
  "select_rule demo_utils (rules guarded_engine) [''n'' \<mapsto> VInt 1] = None \<and>
   fst (mutate demo_utils demo_lib guarded_engine [0x78] [''n'' \<mapsto> VInt 1] 0 ()) = Inr []"
  by (simp add: mutate_def guarded_engine_def init_engine_def guarded_def demo_utils_def)

text \<open>
  Claim C7. After any sequence of \<open>mutate\<close> calls on a freshly built engine, the
  mutation history holds at most 1000 entries, no entry twice, and every entry is the
  128-bit digest of a mutated result of one of the calls.
\<close>

theorem mutation_history_bounded:
  "length (mutation_history (mutate_calls U L (init_engine ops rs) calls)) \<le> 1000 \<and>
   distinct (mutation_history (mutate_calls U L (init_engine ops rs) calls)) \<and>
   (\<forall>d \<in> set (mutation_history (mutate_calls U L (init_engine ops rs) calls)).
      \<exists>(data, mutation_context, n, w) \<in> set calls.
        \<exists>b op_name. mutated_result (init_engine ops rs) data mutation_context b op_name \<and>
          d = md5 L b)"
proof (intro conjI ballI)
  have "length (mutation_history (mutate_calls U L (init_engine ops rs) calls)) <
      max_mutation_history_size (init_engine ops rs)"
    by (rule mutate_calls_bound) (simp add: init_engine_def)
  then show "length (mutation_history (mutate_calls U L (init_engine ops rs) calls)) \<le> 1000"
    by (simp add: init_engine_def)
  show "distinct (mutation_history (mutate_calls U L (init_engine ops rs) calls))"
    by (rule mutate_calls_distinct) (simp add: init_engine_def)
next
  fix d
  assume "d \<in> set (mutation_history (mutate_calls U L (init_engine ops rs) calls))"
  from mutate_calls_digests [OF this]
  show "\<exists>(data, mutation_context, n, w) \<in> set calls.
        \<exists>b op_name. mutated_result (init_engine ops rs) data mutation_context b op_name \<and>
          d = md5 L b"
    by (simp add: init_engine_def)
qed

theorem mutation_history_bounded_witness:
  "mutation_history (mutate_calls demo_utils demo_lib
      (init_engine [(''same'', op_same)] [unconditional ''same''])
      [([0x78], Map.empty, 3, ()), ([0x79], Map.empty, 2, ())]) = [demo_md5 [115, 97, 109, 101]] \<and>
   length [demo_md5 [115, 97, 109, 101]] \<le> 1000 \<and>
   (\<exists>(data, mutation_context, n, w) \<in> set [([0x78], Map.empty, 3, ()), ([0x79 :: byte], Map.empty, 2 :: int, ())].
      \<exists>b op_name.
        mutated_result (init_engine [(''same'', op_same)] [unconditional ''same'']) data
          mutation_context b op_name \<and>
        demo_md5 [115, 97, 109, 101] = md5 demo_lib b)"
proof -
  let ?calls = "[([0x78], Map.empty, 3, ()), ([0x79 :: byte], Map.empty :: pydict, 2 :: int, ())]"
  let ?e = "init_engine [(''same'', op_same)] [unconditional ''same'']"
  have a: "mutation_history (mutate_calls demo_utils demo_lib ?e ?calls) =
      [demo_md5 [115, 97, 109, 101]]"
    by code_simp
  note T = mutation_history_bounded
    [where U = demo_utils and L = demo_lib and ops = "[(''same'', op_same)]"
       and rs = "[unconditional ''same'']" and calls = ?calls]
  from T show ?thesis unfolding a by simp
qed



section \<open>State projector: lemmas\<close>

lemma tuple_item_labelled:
  "known_type item \<longrightarrow> display_key item \<noteq> None \<Longrightarrow>
     tuple_item item state_dict = Inr (labelled_pair state_dict item)"
  by (auto simp: tuple_item_def labelled_pair_def display_key_def known_type_def code_label_def
      subscript_def split: option.splits)

lemma tuple_loop_labelled:
  "\<forall>item \<in> set spec. known_type item \<longrightarrow> display_key item \<noteq> None \<Longrightarrow>
     tuple_loop spec state_dict computed =
       Inr (computed @ concat (map (labelled_pair state_dict) spec))"
proof (induction spec arbitrary: computed)
  case Nil
  then show ?case by simp
next
  case (Cons item spec)
  then show ?case by (simp add: tuple_item_labelled)
qed

lemma compute_item_other_keys:
  "compute_item U B samples latest item result = Inr result' \<Longrightarrow> display_key item \<noteq> Some k \<Longrightarrow>
     result' k = result k"
  by (auto simp: compute_item_def display_key_def subscript_def Let_def
      split: if_splits option.splits sum.splits)

lemma compute_item_value_absent:
  "item_type item = ''value'' \<Longrightarrow> item_name item = Some name \<Longrightarrow> latest name = None \<Longrightarrow>
     compute_item U B samples latest item result = Inr result"
  by (simp add: compute_item_def subscript_def)

lemma compute_item_sum_absent:
  "item_type item = ''sum'' \<Longrightarrow> item_name item = Some name \<Longrightarrow> map_of samples name = None \<Longrightarrow>
     compute_item U B samples latest item result = Inr (result(name \<mapsto> VInt 0))"
  by (simp add: compute_item_def subscript_def samples_get_def)

lemma compute_loop_untouched:
  "compute_loop U B samples latest spec result = Inr d \<Longrightarrow>
     \<forall>item \<in> set spec. display_key item = Some k \<longrightarrow> item_type item = ''value'' \<Longrightarrow>
     latest k = None \<Longrightarrow> d k = result k"
proof (induction spec arbitrary: result)
  case Nil
  then show ?case by simp
next
  case (Cons item spec)
  from Cons.prems(1) obtain r where r: "compute_item U B samples latest item result = Inr r"
    and l: "compute_loop U B samples latest spec r = Inr d"
    by (auto split: sum.splits)
  have "r k = result k"
  proof (cases "display_key item = Some k")
    case True
    with Cons.prems(2) have "item_type item = ''value''" by simp
    moreover with True have "item_name item = Some k" by (simp add: display_key_def)
    ultimately have "compute_item U B samples latest item result = Inr result"
      using Cons.prems(3) by (rule compute_item_value_absent)
    with r show ?thesis by simp
  next
    case False
    with r show ?thesis by (rule compute_item_other_keys)
  qed
  moreover from Cons.IH [OF l] Cons.prems(2,3) have "d k = r k" by simp
  ultimately show ?case by simp
qed

lemma compute_loop_no_writer:
  "compute_loop U B samples latest spec result = Inr d \<Longrightarrow>
     \<forall>item \<in> set spec. display_key item \<noteq> Some k \<Longrightarrow> d k = result k"
proof (induction spec arbitrary: result)
  case Nil
  then show ?case by simp
next
  case (Cons item spec)
  from Cons.prems(1) obtain r where r: "compute_item U B samples latest item result = Inr r"
    and l: "compute_loop U B samples latest spec r = Inr d"
    by (auto split: sum.splits)
  from Cons.prems(2) have "display_key item \<noteq> Some k" by simp
  with r have "r k = result k" by (rule compute_item_other_keys)
  moreover from Cons.IH [OF l] Cons.prems(2) have "d k = r k" by simp
  ultimately show ?case by simp
qed

lemma compute_loop_append:
  "compute_loop U B samples latest (xs @ ys) result =
     (case compute_loop U B samples latest xs result of
        Inl err \<Rightarrow> Inl err
      | Inr r \<Rightarrow> compute_loop U B samples latest ys r)"
  by (induction xs arbitrary: result) (auto split: sum.splits)

lemma fold_count:
  "fold (\<lambda>i count. if P i then count + 1 else count) xs (a :: int) = a + int (length (filter P xs))"
  by (induction xs arbitrary: a) auto

lemma counter_loop_card:
  "counter_loop U expr samples =
     int (card {i. i < max_length samples \<and> eval_predicate_expression U expr (step_values samples i)})"
proof -
  let ?P = "\<lambda>i. eval_predicate_expression U expr (step_values samples i)"
  have "length (filter ?P [0..<max_length samples]) = card {i. i < max_length samples \<and> ?P i}"
    using distinct_card [of "filter ?P [0..<max_length samples]"] by simp
  then show ?thesis by (simp add: counter_loop_def fold_count)
qed

lemma fold_max_length:
  "fold (\<lambda>(name, values) m. max m (length values)) xs a = Max (insert a (length ` snd ` set xs))"
proof (induction xs arbitrary: a)
  case Nil
  then show ?case by simp
next
  case (Cons x xs)
  obtain n vs where x: "x = (n, vs)" by (cases x)
  have "Max (insert (max a (length vs)) (length ` snd ` set xs)) =
      Max (insert a (insert (length vs) (length ` snd ` set xs)))"
    by (cases "set xs = {}") (simp_all add: max.assoc)
  with Cons.IH [of "max a (length vs)"] show ?case by (simp add: x)
qed

lemma max_length_Max: "max_length samples = Max (insert 0 (length ` snd ` set samples))"
  by (simp add: max_length_def fold_max_length)

lemma fold_step_dom:
  "dom (fold (\<lambda>(name, values) m. if i < length values then m(name \<mapsto> values ! i) else m) xs m0) =
     dom m0 \<union> {name. \<exists>values. (name, values) \<in> set xs \<and> i < length values}"
proof (induction xs arbitrary: m0)
  case Nil
  then show ?case by simp
next
  case (Cons x xs)
  obtain n vs where x: "x = (n, vs)" by (cases x)
  show ?case by (auto simp: x Cons.IH)
qed

lemma fold_step_value:
  "distinct (map fst xs) \<Longrightarrow> (name, values) \<in> set xs \<Longrightarrow> i < length values \<Longrightarrow>
     fold (\<lambda>(name, values) m. if i < length values then m(name \<mapsto> values ! i) else m) xs m0 name =
       Some (values ! i)"
proof (induction xs arbitrary: m0)
  case Nil
  then show ?case by simp
next
  case (Cons x xs)
  obtain n vs where x: "x = (n, vs)" by (cases x)
  show ?case
  proof (cases "(name, values) \<in> set xs")
    case True
    with Cons show ?thesis by simp
  next
    case False
    with Cons.prems x have eq: "n = name" "vs = values" by auto
    from Cons.prems(1) x eq have "name \<notin> fst ` set xs" by simp
    then have "name \<notin> {name. \<exists>values. (name, values) \<in> set xs \<and> i < length values}"
      by force
    then have "name \<notin> dom (fold (\<lambda>(name, values) m. if i < length values then m(name \<mapsto> values ! i) else m) xs Map.empty)"
      by (simp add: fold_step_dom)
    have keep: "n \<notin> fst ` set ys \<Longrightarrow>
        fold (\<lambda>(name, values) m. if i < length values then m(name \<mapsto> values ! i) else m) ys m1 n = m1 n"
      for ys m1
    proof (induction ys arbitrary: m1)
      case Nil
      then show ?case by simp
    next
      case (Cons y ys)
      obtain k ws where y: "y = (k, ws)" by (cases y)
      with Cons.prems have "k \<noteq> n" "n \<notin> fst ` set ys" by auto
      with Cons.IH show ?case by (simp add: y)
    qed
    from \<open>name \<notin> fst ` set xs\<close> eq Cons.prems(3) keep [of xs "m0(name \<mapsto> values ! i)"]
    show ?thesis by (simp add: x)
  qed
qed

lemma scenario_count:
  assumes "\<forall>env. eval_predicate_expression U ''a and b'' env = (truthy (env ''a'') \<and> truthy (env ''b''))"
  shows "counter_loop U ''a and b'' scenario_samples = 1"
proof -
  have m: "max_length scenario_samples = 3"
    by (simp add: max_length_def scenario_samples_def)
  have u: "[0..<3] = [0, Suc 0, Suc (Suc 0)]"
    by (simp add: upt_rec)
  have s0: "step_values scenario_samples 0 = [''a'' \<mapsto> VInt 1, ''b'' \<mapsto> VInt 0]"
    and s1: "step_values scenario_samples (Suc 0) = [''a'' \<mapsto> VInt 0, ''b'' \<mapsto> VInt 0]"
    and s2: "step_values scenario_samples (Suc (Suc 0)) = [''a'' \<mapsto> VInt 1, ''b'' \<mapsto> VInt 1]"
    by (simp_all add: step_values_def scenario_samples_def)
  show ?thesis
    by (simp add: counter_loop_def m u s0 s1 s2 assms truthy_def)
qed

section \<open>State projector: the claims\<close>

text \<open>
  What \<open>_dict_to_state_tuple\<close> computes. For a spec whose items of the five kinds
  carry their key, the state tuple is the concatenation, in declaration order, of one
  labelled pair for each item whose display key is in the state dict, and of nothing for
  the others. The label is the key followed by \<open>(value)\<close>, \<open>(sum)\<close>, \<open>(count)\<close> or
  \<open>(set)\<close> for a value, sum, counter or set item; the predicate branch writes the
  expression alone.
\<close>

theorem state_tuple_labels:
  "(\<forall>item \<in> set spec. known_type item \<longrightarrow> display_key item \<noteq> None) \<longrightarrow>
     dict_to_state_tuple spec state_dict = Inr (concat (map (labelled_pair state_dict) spec))"
  by (simp add: dict_to_state_tuple_def tuple_loop_labelled)

theorem state_tuple_labels_witness:
  "dict_to_state_tuple
     [value_item ''x'', sum_item ''y'', pred_item ''x > 3'', counter_item ''a and b'', set_item ''e'',
      value_item ''missing'']
     [''x'' \<mapsto> VInt 42, ''y'' \<mapsto> VInt 7, ''x > 3'' \<mapsto> VInt 1, ''a and b'' \<mapsto> VInt 1,
      ''e'' \<mapsto> VTuple [VInt 1, VInt 2, VInt 3]] =
   Inr [VStr ''x (value)'', VInt 42, VStr ''y (sum)'', VInt 7, VStr ''x > 3'', VInt 1,
        VStr ''a and b (count)'', VInt 1, VStr ''e (set)'', VTuple [VInt 1, VInt 2, VInt 3]]"
proof -
  let ?spec = "[value_item ''x'', sum_item ''y'', pred_item ''x > 3'', counter_item ''a and b'',
      set_item ''e'', value_item ''missing'']"
  have wf: "\<forall>item \<in> set ?spec. known_type item \<longrightarrow> display_key item \<noteq> None"
    by (simp add: display_key_def value_item_def sum_item_def pred_item_def counter_item_def
        set_item_def)
  from state_tuple_labels [of ?spec] wf show ?thesis
    by (simp add: labelled_pair_def display_key_def code_label_def value_item_def sum_item_def
        pred_item_def counter_item_def set_item_def)
qed

text \<open>
  Claim C2 at the failing input. The claim asks for a label of the form key, space, kind
  in parentheses for predicate items as for the others. On the spec with the one
  predicate item \<open>x > 3\<close> and the state dict that maps \<open>x > 3\<close> to 1, the code
  appends the expression itself, which is not the expression followed by a kind in
  parentheses, whatever the kind. The sibling branches do write the suffix: a counter on
  the same expression is labelled \<open>x > 3 (count)\<close>, a value item on \<open>x\<close> is labelled
  \<open>x (value)\<close>.
\<close>

theorem predicate_label_has_no_kind:
  "dict_to_state_tuple [pred_item ''x > 3''] [''x > 3'' \<mapsto> VInt 1] = Inr [VStr ''x > 3'', VInt 1] \<and>
   (\<forall>kind. VStr ''x > 3'' \<noteq> VStr (''x > 3'' @ '' ('' @ kind @ '')'')) \<and>
   dict_to_state_tuple [counter_item ''x > 3''] [''x > 3'' \<mapsto> VInt 1] =
     Inr [VStr ''x > 3 (count)'', VInt 1] \<and>
   dict_to_state_tuple [value_item ''x''] [''x'' \<mapsto> VInt 5] = Inr [VStr ''x (value)'', VInt 5]"
  by (simp add: dict_to_state_tuple_def tuple_item_def pred_item_def counter_item_def
      value_item_def subscript_def)

text \<open>
  Claim C3, as the code has it. A name that is absent from the latest values is absent
  from the state dict when only value items have it as their display key. A sum item
  whose name is absent from the samples writes its key with the value 0, and the state
  dict maps the key to 0 when no later item writes the same key.
\<close>

theorem absent_value_omitted_absent_sum_zero:
  "(latest_values name = None \<and>
    (\<forall>item \<in> set spec. display_key item = Some name \<longrightarrow> item_type item = ''value'') \<and>
    compute_state_dict U B spec execution_value_samples latest_values verbose = Inr d \<longrightarrow>
      d name = None) \<and>
   (map_of execution_value_samples name = None \<and>
    item_type item = ''sum'' \<and> item_name item = Some name \<and>
    (\<forall>later \<in> set post. display_key later \<noteq> Some name) \<and>
    compute_state_dict U B (pre @ item # post) execution_value_samples latest_values verbose = Inr d'
      \<longrightarrow> d' name = Some (VInt 0))"
proof (intro conjI impI)
  assume "latest_values name = None \<and>
    (\<forall>item \<in> set spec. display_key item = Some name \<longrightarrow> item_type item = ''value'') \<and>
    compute_state_dict U B spec execution_value_samples latest_values verbose = Inr d"
  then show "d name = None"
    using compute_loop_untouched [of U B execution_value_samples latest_values spec Map.empty d name]
    by (simp add: compute_state_dict_def)
next
  assume a: "map_of execution_value_samples name = None \<and>
    item_type item = ''sum'' \<and> item_name item = Some name \<and>
    (\<forall>later \<in> set post. display_key later \<noteq> Some name) \<and>
    compute_state_dict U B (pre @ item # post) execution_value_samples latest_values verbose = Inr d'"
  then obtain r where r: "compute_loop U B execution_value_samples latest_values pre Map.empty = Inr r"
    and l: "compute_loop U B execution_value_samples latest_values (item # post) r = Inr d'"
    by (auto simp: compute_state_dict_def compute_loop_append split: sum.splits)
  from a have "compute_item U B execution_value_samples latest_values item r =
      Inr (r(name \<mapsto> VInt 0))"
    by (intro compute_item_sum_absent) simp_all
  with l have "compute_loop U B execution_value_samples latest_values post (r(name \<mapsto> VInt 0)) = Inr d'"
    by simp
  from compute_loop_no_writer [OF this, of name] a show "d' name = Some (VInt 0)" by simp
qed

theorem absent_value_omitted_absent_sum_zero_witness:
  "compute_state_dict demo_utils demo_builtins [value_item ''x'', sum_item ''y'']
     [] Map.empty False = Inr [''y'' \<mapsto> VInt 0] \<and>
   [''y'' \<mapsto> VInt 0] ''x'' = None \<and> [''y'' \<mapsto> VInt 0] ''y'' = Some (VInt 0)"
proof -
  let ?spec = "[value_item ''x'', sum_item ''y'']"
  let ?d = "[''y'' \<mapsto> VInt 0]"
  have run: "compute_state_dict demo_utils demo_builtins ?spec [] Map.empty False = Inr ?d"
    by (simp add: compute_state_dict_def compute_item_def value_item_def sum_item_def
        subscript_def samples_get_def)
  have h1: "\<forall>item \<in> set ?spec. display_key item = Some ''x'' \<longrightarrow> item_type item = ''value''"
    by (simp add: display_key_def value_item_def sum_item_def)
  have h2: "item_type (sum_item ''y'') = ''sum''" "item_name (sum_item ''y'') = Some ''y''"
    by (simp_all add: sum_item_def)
  note T = absent_value_omitted_absent_sum_zero
    [where U = demo_utils and B = demo_builtins and spec = ?spec and execution_value_samples = "[]"
       and latest_values = Map.empty and verbose = False and d = ?d and d' = ?d
       and pre = "[value_item ''x'']" and item = "sum_item ''y''" and post = "[]"]
  have 1: "?d ''x'' = None"
    by (rule T [of "''x''", THEN conjunct1, THEN mp]) (intro conjI h1 run, simp)
  have 2: "?d ''y'' = Some (VInt 0)"
    by (rule T [of "''y''", THEN conjunct2, THEN mp]) (use run h2 in simp)
  from run 1 2 show ?thesis by blast
qed

text \<open>
  Claim C3 as stated fails for sum items: with no samples at all, a sum item on \<open>y\<close>
  yields a state dict that maps \<open>y\<close> to 0.
\<close>

theorem absent_sum_counterexample:
  "compute_state_dict demo_utils demo_builtins [sum_item ''y''] [] Map.empty False =
     Inr [''y'' \<mapsto> VInt 0]"
  by (simp add: compute_state_dict_def compute_item_def sum_item_def subscript_def samples_get_def)

text \<open>
  Claim C8. A counter item writes, under its expression, the number of step indices
  below the maximum sample-list length at which the expression evaluates true over the
  step's environment. The maximum is taken over all names (0 when there are none). The
  environment of step \<open>i\<close> holds exactly the names whose sample list has more than \<open>i\<close>
  elements, each with its \<open>i\<close>-th sample. With an evaluator that reads \<open>a and b\<close> as the
  conjunction of the truth values of \<open>a\<close> and \<open>b\<close>, the samples \<open>a: [1, 0, 1]\<close>,
  \<open>b: [0, 0, 1]\<close> give the count 1.
\<close>

theorem counter_counts_steps:
  "(item_type item = ''counter'' \<and> item_expr item = Some expr \<longrightarrow>
      compute_item U B execution_value_samples latest_values item result =
        Inr (result(expr \<mapsto> VInt (int (card {i. i < max_length execution_value_samples \<and>
               eval_predicate_expression U expr (step_values execution_value_samples i)}))))) \<and>
   max_length execution_value_samples = Max (insert 0 (length ` snd ` set execution_value_samples)) \<and>
   dom (step_values execution_value_samples i) =
     {name. \<exists>vals. (name, vals) \<in> set execution_value_samples \<and> i < length vals} \<and>
   (distinct (map fst execution_value_samples) \<and> (name, vals) \<in> set execution_value_samples \<and>
    i < length vals \<longrightarrow> step_values execution_value_samples i name = Some (vals ! i)) \<and>
   ((\<forall>env. eval_predicate_expression U ''a and b'' env = (truthy (env ''a'') \<and> truthy (env ''b'')))
      \<longrightarrow> compute_state_dict U B [counter_item ''a and b''] scenario_samples latest_values verbose =
            Inr [''a and b'' \<mapsto> VInt 1])"
proof (intro conjI impI)
  assume "item_type item = ''counter'' \<and> item_expr item = Some expr"
  then show "compute_item U B execution_value_samples latest_values item result =
        Inr (result(expr \<mapsto> VInt (int (card {i. i < max_length execution_value_samples \<and>
               eval_predicate_expression U expr (step_values execution_value_samples i)}))))"
    by (simp add: compute_item_def subscript_def counter_loop_card)
next
  show "max_length execution_value_samples = Max (insert 0 (length ` snd ` set execution_value_samples))"
    by (rule max_length_Max)
next
  show "dom (step_values execution_value_samples i) =
     {name. \<exists>vals. (name, vals) \<in> set execution_value_samples \<and> i < length vals}"
    by (simp add: step_values_def fold_step_dom)
next
  assume "distinct (map fst execution_value_samples) \<and> (name, vals) \<in> set execution_value_samples \<and>
    i < length vals"
  then show "step_values execution_value_samples i name = Some (vals ! i)"
    by (simp add: step_values_def fold_step_value)
next
  assume "\<forall>env. eval_predicate_expression U ''a and b'' env = (truthy (env ''a'') \<and> truthy (env ''b''))"
  from scenario_count [OF this]
  show "compute_state_dict U B [counter_item ''a and b''] scenario_samples latest_values verbose =
            Inr [''a and b'' \<mapsto> VInt 1]"
    by (simp add: compute_state_dict_def compute_item_def counter_item_def subscript_def)
qed

theorem counter_counts_steps_witness:
  "compute_state_dict demo_utils demo_builtins [counter_item ''a and b''] scenario_samples
     Map.empty False = Inr [''a and b'' \<mapsto> VInt 1] \<and>
   step_values scenario_samples 2 ''b'' = Some (VInt 1) \<and>
   compute_item demo_utils demo_builtins scenario_samples Map.empty (counter_item ''a and b'')
     Map.empty =
     Inr [''a and b'' \<mapsto> VInt (int (card {i. i < max_length scenario_samples \<and>
       eval_predicate_expression demo_utils ''a and b'' (step_values scenario_samples i)}))]"
proof -
  note T = counter_counts_steps
    [where U = demo_utils and B = demo_builtins and execution_value_samples = scenario_samples
       and latest_values = Map.empty and verbose = False and item = "counter_item ''a and b''"
       and expr = "''a and b''" and result = Map.empty and i = 2 and name = "''b''"
       and vals = "[VInt 0, VInt 0, VInt 1]"]
  have e: "\<forall>env. eval_predicate_expression demo_utils ''a and b'' env =
      (truthy (env ''a'') \<and> truthy (env ''b''))"
    by (simp add: demo_utils_def)
  have d: "distinct (map fst scenario_samples)"
    "(''b'', [VInt 0, VInt 0, VInt 1]) \<in> set scenario_samples"
    "2 < length [VInt 0, VInt 0, VInt 1]"
    by (simp_all add: scenario_samples_def)
  have c: "item_type (counter_item ''a and b'') = ''counter''"
    "item_expr (counter_item ''a and b'') = Some ''a and b''"
    by (simp_all add: counter_item_def)
  from T e have 1: "compute_state_dict demo_utils demo_builtins [counter_item ''a and b'']
      scenario_samples Map.empty False = Inr [''a and b'' \<mapsto> VInt 1]"
    by blast
  from T d have 2: "step_values scenario_samples 2 ''b'' = Some (VInt 1)"
    by simp
  from T c have 3: "compute_item demo_utils demo_builtins scenario_samples Map.empty
      (counter_item ''a and b'') Map.empty =
     Inr [''a and b'' \<mapsto> VInt (int (card {i. i < max_length scenario_samples \<and>
       eval_predicate_expression demo_utils ''a and b'' (step_values scenario_samples i)}))]"
    by blast
  from 1 2 3 show ?thesis by blast
qed

section \<open>Reading the observations: lemmas\<close>

lemma digit_not_space: "is_ascii_digit c \<Longrightarrow> \<not> py_isspace c"
  by (auto simp: is_ascii_digit_def py_isspace_def less_eq_char_def)

lemma dropWhile_none: "\<forall>c \<in> set xs. \<not> P c \<Longrightarrow> dropWhile P xs = xs"
  by (cases xs) auto

lemma strip_no_space: "\<forall>c \<in> set s. \<not> py_isspace c \<Longrightarrow> py_strip s = s"
  by (simp add: py_strip_def dropWhile_none)

lemma underscores_ok_digits: "s \<noteq> [] \<Longrightarrow> list_all is_ascii_digit s \<Longrightarrow> underscores_ok s"
proof (induction s rule: underscores_ok.induct)
  case 1
  then show ?case by simp
next
  case (2 c)
  then show ?case by simp
next
  case (3 c d cs)
  then have "d \<noteq> CHR ''_''" by (auto simp: is_ascii_digit_def less_eq_char_def)
  with 3 show ?case by simp
qed

lemma underscores_ok_chars: "underscores_ok s \<Longrightarrow> \<forall>c \<in> set s. is_ascii_digit c \<or> c = CHR ''_''"
  by (induction s rule: underscores_ok.induct) (auto split: if_splits)

lemma py_int_digits:
  assumes "s \<noteq> []" "list_all is_ascii_digit s"
    "int_max_str_digits B = 0 \<or> length s \<le> int_max_str_digits B"
  shows "py_int B s = Inr (digits_value s)"
proof -
  from assms(2) have ns: "\<forall>c \<in> set s. \<not> py_isspace c"
    by (auto simp: list_all_iff digit_not_space)
  then have strip: "py_strip s = s" by (rule strip_no_space)
  from assms(1,2) have hd: "is_ascii_digit (hd s)" by (cases s) auto
  then have sign: "hd s \<noteq> CHR ''-''" "hd s \<noteq> CHR ''+''"
    by (auto simp: is_ascii_digit_def less_eq_char_def)
  from assms(2) have flt: "filter (\<lambda>c. c \<noteq> CHR ''_'') s = s"
    by (auto simp: list_all_iff is_ascii_digit_def less_eq_char_def intro!: filter_True)
  from assms show ?thesis
    by (auto simp: py_int_def Let_def strip sign flt underscores_ok_digits)
qed


lemma of_char_lower: "(of_char (lower_char c) :: nat) =
  (if (65 \<le> (of_char c :: nat) \<and> (of_char c :: nat) \<le> 90) \<or>
      (192 \<le> (of_char c :: nat) \<and> (of_char c :: nat) \<le> 222 \<and> (of_char c :: nat) \<noteq> 215)
   then of_char c + 32 else of_char c)"
proof -
  have "(of_char c :: nat) < 256" by (rule nat_of_char_less_256)
  then show ?thesis by (auto simp: lower_char_def Let_def)
qed

lemma lower_char_is_1: "lower_char c = CHR ''1'' \<Longrightarrow> c = CHR ''1''"
proof -
  assume a: "lower_char c = CHR ''1''"
  then have "(of_char (lower_char c) :: nat) = 49" by simp
  then have "(of_char c :: nat) = 49" by (auto simp: of_char_lower split: if_splits)
  then have "(of_char c :: nat) = of_char (CHR ''1'')" by simp
  then show ?thesis by (simp only: of_char_eq_iff)
qed

lemma py_lower_is_1: "py_lower s = ''1'' \<Longrightarrow> py_isdigit s"
  by (cases s) (auto simp: py_lower_def py_isdigit_def is_ascii_digit_def less_eq_char_def
      dest!: lower_char_is_1)

lemma coerce_bool_not_digit:
  "\<not> py_isdigit s \<Longrightarrow>
     coerce B ''bool'' s = Inr (VInt (if py_lower s \<in> {''true'', ''yes''} then 1 else 0))"
  by (auto simp: coerce_def dest: py_lower_is_1)

lemma coerce_bool_digits:
  "s \<noteq> [] \<Longrightarrow> list_all is_ascii_digit s \<Longrightarrow>
   int_max_str_digits B = 0 \<or> length s \<le> int_max_str_digits B \<Longrightarrow>
     coerce B ''bool'' s = Inr (VInt (digits_value s))"
  by (simp add: coerce_def py_int_digits py_isdigit_def list_all_iff)

lemma py_int_not_ascii:
  assumes "py_isdigit s" "\<not> list_all is_ascii_digit s"
  shows "py_int B s = Inl (ValueError InvalidLiteral)"
proof -
  from assms(1) have cs: "\<forall>c \<in> set s. is_ascii_digit c \<or> c \<in> {CHR 0xB2, CHR 0xB3, CHR 0xB9}"
    and ne: "s \<noteq> []"
    by (auto simp: py_isdigit_def list_all_iff)
  have sup: "c \<in> {CHR 0xB2, CHR 0xB3, CHR 0xB9} \<Longrightarrow>
      \<not> py_isspace c \<and> c \<noteq> CHR ''-'' \<and> c \<noteq> CHR ''+'' \<and> c \<noteq> CHR ''_'' \<and> \<not> is_ascii_digit c" for c
    by (auto simp: py_isspace_def is_ascii_digit_def less_eq_char_def)
  have dig: "is_ascii_digit c \<Longrightarrow> \<not> py_isspace c \<and> c \<noteq> CHR ''-'' \<and> c \<noteq> CHR ''+'' \<and> c \<noteq> CHR ''_''" for c
    by (auto simp: py_isspace_def is_ascii_digit_def less_eq_char_def)
  from cs sup dig have ns: "\<forall>c \<in> set s. \<not> py_isspace c" by blast
  then have strip: "py_strip s = s" by (rule strip_no_space)
  from ne cs sup dig have sign: "hd s \<noteq> CHR ''-''" "hd s \<noteq> CHR ''+''"
    by (cases s; auto)+
  from assms(2) obtain c where c: "c \<in> set s" "\<not> is_ascii_digit c"
    by (auto simp: list_all_iff)
  with cs sup have "c \<noteq> CHR ''_''" by blast
  with c underscores_ok_chars [of s] have "\<not> underscores_ok s" by blast
  then show ?thesis by (simp add: py_int_def Let_def strip sign)
qed

lemma py_int_too_long:
  assumes "int_max_str_digits B \<noteq> 0" "length s > int_max_str_digits B" "list_all is_ascii_digit s"
  shows "py_int B s = Inl (ValueError InvalidLiteral)"
proof -
  from assms(2) have ne: "s \<noteq> []" by auto
  from assms(3) have ns: "\<forall>c \<in> set s. \<not> py_isspace c"
    by (auto simp: list_all_iff digit_not_space)
  then have strip: "py_strip s = s" by (rule strip_no_space)
  from ne assms(3) have hd: "is_ascii_digit (hd s)" by (cases s) auto
  then have sign: "hd s \<noteq> CHR ''-''" "hd s \<noteq> CHR ''+''"
    by (auto simp: is_ascii_digit_def less_eq_char_def)
  from assms(3) have flt: "filter (\<lambda>c. c \<noteq> CHR ''_'') s = s"
    by (auto simp: list_all_iff is_ascii_digit_def less_eq_char_def intro!: filter_True)
  from assms ne show ?thesis
    by (auto simp: py_int_def Let_def strip sign flt)
qed

lemma coerce_bool_fails_iff:
  "(\<exists>err. coerce B ''bool'' s = Inl err) \<longleftrightarrow>
     py_isdigit s \<and>
     (\<not> list_all is_ascii_digit s \<or> (int_max_str_digits B \<noteq> 0 \<and> length s > int_max_str_digits B))"
proof (cases "py_isdigit s")
  case False
  then show ?thesis by (simp add: coerce_bool_not_digit)
next
  case True
  then have ne: "s \<noteq> []" by (simp add: py_isdigit_def)
  show ?thesis
  proof (cases "list_all is_ascii_digit s")
    case False
    with True show ?thesis by (simp add: coerce_def py_int_not_ascii)
  next
    case asc: True
    show ?thesis
    proof (cases "int_max_str_digits B \<noteq> 0 \<and> length s > int_max_str_digits B")
      case True
      with asc \<open>py_isdigit s\<close> show ?thesis by (simp add: coerce_def py_int_too_long)
    next
      case False
      then have "int_max_str_digits B = 0 \<or> length s \<le> int_max_str_digits B" by auto
      from coerce_bool_digits [OF ne asc this] False asc show ?thesis by auto
    qed
  qed
qed

section \<open>Reading the observations: the claims\<close>

text \<open>
  Claim C9, as the code has it. For an observation declared \<open>bool\<close>: a token of ASCII
  digits (within the interpreter's digit limit) is coerced to the integer it denotes; a
  token that \<open>isdigit\<close> rejects is coerced to 1 when it is \<open>true\<close> or \<open>yes\<close> in any
  case, and to 0 otherwise; the coercion fails exactly for a digits-only token that
  \<open>int\<close> rejects (one with a superscript digit, or one with too many digits). Where the
  name is found on a line, a failed coercion leaves the samples as they were and any
  other token's value is appended.
\<close>

theorem bool_token_coercion:
  "(s \<noteq> [] \<and> list_all is_ascii_digit s \<and>
    (int_max_str_digits B = 0 \<or> length s \<le> int_max_str_digits B) \<longrightarrow>
      coerce B ''bool'' s = Inr (VInt (digits_value s))) \<and>
   (\<not> py_isdigit s \<longrightarrow>
      coerce B ''bool'' s = Inr (VInt (if py_lower s \<in> {''true'', ''yes''} then 1 else 0))) \<and>
   ((\<exists>err. coerce B ''bool'' s = Inl err) \<longleftrightarrow>
      py_isdigit s \<and>
      (\<not> list_all is_ascii_digit s \<or>
       (int_max_str_digits B \<noteq> 0 \<and> length s > int_max_str_digits B))) \<and>
   (py_find (exec_name @ '':'') line = Some idx \<longrightarrow>
      scan_name B line (exec_name, Some ''bool'') execution_value_samples =
        (case coerce B ''bool'' (first_token (py_strip (drop (idx + length exec_name + 1) line))) of
           Inl err \<Rightarrow> execution_value_samples
         | Inr v \<Rightarrow> append_sample execution_value_samples exec_name v))"
proof (intro conjI impI)
  assume "s \<noteq> [] \<and> list_all is_ascii_digit s \<and>
    (int_max_str_digits B = 0 \<or> length s \<le> int_max_str_digits B)"
  then show "coerce B ''bool'' s = Inr (VInt (digits_value s))"
    by (intro coerce_bool_digits) simp_all
next
  assume "\<not> py_isdigit s"
  then show "coerce B ''bool'' s = Inr (VInt (if py_lower s \<in> {''true'', ''yes''} then 1 else 0))"
    by (rule coerce_bool_not_digit)
next
  show "(\<exists>err. coerce B ''bool'' s = Inl err) \<longleftrightarrow>
      py_isdigit s \<and>
      (\<not> list_all is_ascii_digit s \<or>
       (int_max_str_digits B \<noteq> 0 \<and> length s > int_max_str_digits B))"
    by (rule coerce_bool_fails_iff)
next
  assume "py_find (exec_name @ '':'') line = Some idx"
  then show "scan_name B line (exec_name, Some ''bool'') execution_value_samples =
        (case coerce B ''bool'' (first_token (py_strip (drop (idx + length exec_name + 1) line))) of
           Inl err \<Rightarrow> execution_value_samples
         | Inr v \<Rightarrow> append_sample execution_value_samples exec_name v)"
    by (simp add: scan_name_def Let_def)
qed

theorem bool_token_coercion_witness:
  "coerce demo_builtins ''bool'' ''1'' = Inr (VInt 1) \<and>
   coerce demo_builtins ''bool'' ''0'' = Inr (VInt 0) \<and>
   coerce demo_builtins ''bool'' ''Yes'' = Inr (VInt 1) \<and>
   coerce demo_builtins ''bool'' ''false'' = Inr (VInt 0) \<and>
   coerce demo_builtins ''bool'' ''maybe'' = Inr (VInt 0) \<and>
   (\<exists>err. coerce demo_builtins ''bool'' [CHR 0xB2] = Inl err) \<and>
   scan_name demo_builtins ''flag: maybe'' (''flag'', Some ''bool'') [(''flag'', [VInt 1])] =
     [(''flag'', [VInt 1, VInt 0])] \<and>
   parse_stdout demo_builtins [(''flag'', Some ''bool'')] bool_stdout =
     [(''flag'', [VInt 1, VInt 0, VInt 0, VInt 1])]"
proof -
  note T = bool_token_coercion [where B = demo_builtins]
  have lim: "int_max_str_digits demo_builtins = 4300" by (simp add: demo_builtins_def)
  have d: "list_all is_ascii_digit ''1''" "list_all is_ascii_digit ''0''"
    by (simp_all add: is_ascii_digit_def less_eq_char_def)
  have nd: "\<not> py_isdigit ''Yes''" "\<not> py_isdigit ''false''" "\<not> py_isdigit ''maybe''"
    by (simp_all add: py_isdigit_def is_ascii_digit_def less_eq_char_def)
  have sup: "py_isdigit [CHR 0xB2]" "\<not> list_all is_ascii_digit [CHR 0xB2]"
    by (simp_all add: py_isdigit_def is_ascii_digit_def less_eq_char_def)
  have low: "py_lower ''Yes'' = ''yes''" "py_lower ''false'' = ''false''" "py_lower ''maybe'' = ''maybe''"
    by code_simp+
  from T [of "''1''"] d lim have 1: "coerce demo_builtins ''bool'' ''1'' = Inr (VInt 1)"
    by (simp add: digits_value_def)
  from T [of "''0''"] d lim have 2: "coerce demo_builtins ''bool'' ''0'' = Inr (VInt 0)"
    by (simp add: digits_value_def)
  from T [of "''Yes''"] nd low have 3: "coerce demo_builtins ''bool'' ''Yes'' = Inr (VInt 1)"
    by simp
  from T [of "''false''"] nd low have 4: "coerce demo_builtins ''bool'' ''false'' = Inr (VInt 0)"
    by simp
  from T [of "''maybe''"] nd low have 5: "coerce demo_builtins ''bool'' ''maybe'' = Inr (VInt 0)"
    by simp
  from T [of "[CHR 0xB2]"] sup have 6: "\<exists>err. coerce demo_builtins ''bool'' [CHR 0xB2] = Inl err"
    by blast
  have f: "py_find (''flag'' @ '':'') ''flag: maybe'' = Some 0" by simp
  have tok: "first_token (py_strip '' maybe'') = ''maybe''"
    by code_simp
  from T [of "''maybe''" "''flag''" "''flag: maybe''" 0 "[(''flag'', [VInt 1])]"] f
  have 7: "scan_name demo_builtins ''flag: maybe'' (''flag'', Some ''bool'') [(''flag'', [VInt 1])] =
      [(''flag'', [VInt 1, VInt 0])]"
    by (simp add: tok 5 append_sample_def samples_get_def)
  have 8: "parse_stdout demo_builtins [(''flag'', Some ''bool'')] bool_stdout =
      [(''flag'', [VInt 1, VInt 0, VInt 0, VInt 1])]"
    by code_simp
  from 1 2 3 4 5 6 7 8 show ?thesis by blast
qed

text \<open>
  Claim C9 as stated fails: the token \<open>banana\<close> is none of the six accepted words, yet it
  is coerced to 0 and recorded; the token \<open>7\<close> is coerced to 7, which is neither 0 nor 1.
\<close>

theorem bool_token_counterexample:
  "coerce demo_builtins ''bool'' ''banana'' = Inr (VInt 0) \<and>
   coerce demo_builtins ''bool'' ''7'' = Inr (VInt 7) \<and>
   parse_stdout demo_builtins [(''flag'', Some ''bool'')] ''flag: banana'' = [(''flag'', [VInt 0])]"
  by code_simp

section \<open>Corpus stat tracker: lemmas\<close>

lemma cov_loop_length: "length (fst (cov_loop gb rb i n)) = length gb"
proof (induction gb rb i n rule: cov_loop.induct)
  case (1 gb rb i n)
  show ?case
    by (subst cov_loop.simps) (use 1 in auto)
qed

lemma cov_loop_keeps:
  "j < length gb \<Longrightarrow> gb ! j \<noteq> 0 \<Longrightarrow> fst (cov_loop gb rb i n) ! j \<noteq> 0"
proof (induction gb rb i n rule: cov_loop.induct)
  case (1 gb rb i n)
  show ?case
  proof (cases "i < length gb \<and> i < length rb")
    case False
    then show ?thesis using "1.prems" by (subst cov_loop.simps) auto
  next
    case True
    show ?thesis
    proof (cases "rb ! i \<noteq> 0 \<and> gb ! i = 0")
      case set: True
      with "1.prems" have "j \<noteq> i" by auto
      with "1.prems" have "j < length (gb[i := 1])" "gb[i := 1] ! j \<noteq> 0" by auto
      with "1.IH"(1) True set have "fst (cov_loop (gb[i := 1]) rb (Suc i) True) ! j \<noteq> 0" by blast
      with True set show ?thesis by (subst cov_loop.simps) simp
    next
      case keep: False
      with "1.IH"(2) True "1.prems" have "fst (cov_loop gb rb (Suc i) n) ! j \<noteq> 0" by blast
      with True keep show ?thesis by (subst cov_loop.simps) auto
    qed
  qed
qed

lemma add_sample_cov_bitmap:
  "cov_bitmap (snd (add_sample self sample now)) =
     (case sample_cov_bitmap sample of
        None \<Rightarrow> cov_bitmap self
      | Some rb \<Rightarrow> fst (cov_loop (cov_bitmap self) rb 0 False))"
  by (simp add: add_sample_def Let_def split: option.splits prod.splits)

lemma add_sample_length:
  "length (cov_bitmap (snd (add_sample self sample now))) = length (cov_bitmap self)"
  by (simp add: add_sample_cov_bitmap cov_loop_length split: option.splits)

lemma add_sample_keeps:
  "j < length (cov_bitmap self) \<Longrightarrow> cov_bitmap self ! j \<noteq> 0 \<Longrightarrow>
     cov_bitmap (snd (add_sample self sample now)) ! j \<noteq> 0"
  by (simp add: add_sample_cov_bitmap cov_loop_keeps split: option.splits)

lemma add_sample_num_samples:
  "num_samples self \<le> num_samples (snd (add_sample self sample now))"
  by (simp add: add_sample_def Let_def split: option.splits prod.splits)

lemma add_samples_length:
  "length (cov_bitmap (add_samples self ss)) = length (cov_bitmap self)"
proof (induction ss arbitrary: self)
  case Nil
  then show ?case by simp
next
  case (Cons x ss)
  obtain sample now where "x = (sample, now)" by (cases x)
  with Cons.IH [of "snd (add_sample self sample now)"] show ?case
    by (simp add: add_sample_length)
qed

lemma add_samples_keeps:
  "j < length (cov_bitmap self) \<Longrightarrow> cov_bitmap self ! j \<noteq> 0 \<Longrightarrow>
     cov_bitmap (add_samples self ss) ! j \<noteq> 0"
proof (induction ss arbitrary: self)
  case Nil
  then show ?case by simp
next
  case (Cons x ss)
  obtain sample now where x: "x = (sample, now)" by (cases x)
  from Cons.prems have "j < length (cov_bitmap (snd (add_sample self sample now)))"
    "cov_bitmap (snd (add_sample self sample now)) ! j \<noteq> 0"
    by (simp_all add: add_sample_length add_sample_keeps)
  from Cons.IH [OF this] show ?case by (simp add: x)
qed

lemma add_samples_num_samples:
  "num_samples self \<le> num_samples (add_samples self ss)"
proof (induction ss arbitrary: self)
  case Nil
  then show ?case by simp
next
  case (Cons x ss)
  obtain sample now where x: "x = (sample, now)" by (cases x)
  from Cons.IH [of "snd (add_sample self sample now)"]
    add_sample_num_samples [of self sample now]
  show ?case by (simp add: x)
qed

lemma filter_length_mono:
  "length xs = length ys \<Longrightarrow> \<forall>j < length xs. P (xs ! j) \<longrightarrow> P (ys ! j) \<Longrightarrow>
     length (filter P xs) \<le> length (filter P ys)"
proof (induction xs ys rule: list_induct2)
  case Nil
  then show ?case by simp
next
  case (Cons x xs y ys)
  from Cons.prems have hd: "P x \<longrightarrow> P y" by force
  from Cons.prems have "\<forall>j < length xs. P (xs ! j) \<longrightarrow> P (ys ! j)" by force
  with Cons.IH have "length (filter P xs) \<le> length (filter P ys)" by simp
  with hd show ?case by auto
qed

lemma get_result_total_edges:
  "get_result self = Inr r \<Longrightarrow> total_edges r = length (filter (\<lambda>b. b \<noteq> 0) (cov_bitmap self))"
  by (auto simp: get_result_def split: if_splits)

section \<open>Corpus stat tracker: the claims\<close>

text \<open>
  Claim C6. Over any sequence of \<open>add_sample\<close> calls from any tracker, also calls that
  raise: the edge bitmap keeps its length, every position that is set stays set, and
  whenever \<open>get_result\<close> returns before the calls it returns after them, with a
  \<open>total_edges\<close> that is at least as large. \<open>get_result\<close> returns as soon as one sample
  has been added.
\<close>

theorem bitmap_monotone:
  "length (cov_bitmap (add_samples self calls)) = length (cov_bitmap self) \<and>
   (\<forall>j < length (cov_bitmap self).
      cov_bitmap self ! j \<noteq> 0 \<longrightarrow> cov_bitmap (add_samples self calls) ! j \<noteq> 0) \<and>
   (\<forall>r. get_result self = Inr r \<longrightarrow>
      (\<exists>r'. get_result (add_samples self calls) = Inr r' \<and> total_edges r \<le> total_edges r')) \<and>
   (0 < num_samples self \<longrightarrow> (\<exists>r. get_result self = Inr r))"
proof (intro conjI allI impI)
  show "length (cov_bitmap (add_samples self calls)) = length (cov_bitmap self)"
    by (rule add_samples_length)
next
  fix j
  assume "j < length (cov_bitmap self)" "cov_bitmap self ! j \<noteq> 0"
  then show "cov_bitmap (add_samples self calls) ! j \<noteq> 0" by (rule add_samples_keeps)
next
  fix r
  assume r: "get_result self = Inr r"
  then have "num_samples self \<noteq> 0" by (auto simp: get_result_def split: if_splits)
  with add_samples_num_samples [of self calls] have n: "num_samples (add_samples self calls) \<noteq> 0"
    by simp
  have "length (filter (\<lambda>b. b \<noteq> 0) (cov_bitmap self)) \<le>
      length (filter (\<lambda>b. b \<noteq> 0) (cov_bitmap (add_samples self calls)))"
    by (rule filter_length_mono) (simp_all add: add_samples_length add_samples_keeps)
  with r n show "\<exists>r'. get_result (add_samples self calls) = Inr r' \<and> total_edges r \<le> total_edges r'"
    by (auto simp: get_result_def split: if_splits)
next
  assume "0 < num_samples self"
  then show "\<exists>r. get_result self = Inr r" by (simp add: get_result_def)
qed

theorem bitmap_monotone_witness:
  "cov_bitmap one_sample_tracker = [1, 0, 0, 0] \<and>
   cov_bitmap (add_samples one_sample_tracker
     [(edge_sample [0, 7, 0, 0], 6), (edge_sample [0, 0], 7), (edge_sample [0, 0, 0, 0], 8)]) =
     [1, 1, 0, 0] \<and>
   (\<exists>r r'. get_result one_sample_tracker = Inr r \<and>
      get_result (add_samples one_sample_tracker
        [(edge_sample [0, 7, 0, 0], 6), (edge_sample [0, 0], 7), (edge_sample [0, 0, 0, 0], 8)]) =
        Inr r' \<and>
      total_edges r = 1 \<and> total_edges r' = 2)"
proof -
  let ?calls = "[(edge_sample [0, 7, 0, 0], 6), (edge_sample [0, 0], 7), (edge_sample [0, 0, 0, 0], 8)]"
  have b1: "cov_bitmap one_sample_tracker = [1, 0, 0, 0]"
    by code_simp
  have b2: "cov_bitmap (add_samples one_sample_tracker ?calls) = [1, 1, 0, 0]"
    by code_simp
  have n: "0 < num_samples one_sample_tracker"
    by code_simp
  note T = bitmap_monotone [of one_sample_tracker ?calls]
  from T n obtain r where r: "get_result one_sample_tracker = Inr r" by blast
  with T obtain r' where r': "get_result (add_samples one_sample_tracker ?calls) = Inr r'"
    by blast
  from get_result_total_edges [OF r] b1 have "total_edges r = 1" by simp
  moreover from get_result_total_edges [OF r'] b2 have "total_edges r' = 2" by simp
  ultimately show ?thesis using b1 b2 r r' by blast
qed

section \<open>Loading the strategy: lemmas\<close>

lemma check_entry_None_iff: "check_entry loaded op_entry = None \<longleftrightarrow> valid_entry loaded op_entry"
  by (auto simp: check_entry_def valid_entry_def not_loaded_def
      split: json.splits list.splits sum.splits bool.splits if_splits)

lemma check_entries_None_iff:
  "check_entries loaded entries = None \<longleftrightarrow> (\<forall>op_entry \<in> set entries. valid_entry loaded op_entry)"
proof (induction entries)
  case Nil
  then show ?case by simp
next
  case (Cons a entries)
  have "check_entries loaded (a # entries) = None \<longleftrightarrow>
      check_entry loaded a = None \<and> check_entries loaded entries = None"
    by (simp split: option.splits)
  with Cons.IH show ?case by (simp add: check_entry_None_iff)
qed

lemma check_rule_None_iff:
  "check_rule loaded r = None \<longleftrightarrow>
     (\<exists>kvs entries. r = JObj kvs \<and> map_of kvs ''operators'' = Some (JList entries) \<and>
        (\<forall>op_entry \<in> set entries. valid_entry loaded op_entry))"
  by (auto simp: check_rule_def check_entries_None_iff split: json.splits option.splits)

lemma check_rules_None_iff:
  "check_rules loaded rs = None \<longleftrightarrow> (\<forall>r \<in> set rs. check_rule loaded r = None)"
proof (induction rs)
  case Nil
  then show ?case by simp
next
  case (Cons a rs)
  have "check_rules loaded (a # rs) = None \<longleftrightarrow>
      check_rule loaded a = None \<and> check_rules loaded rs = None"
    by (simp split: option.splits)
  with Cons.IH show ?case by simp
qed

lemma load_strategy_rules_list:
  "(\<exists>v. load_strategy loaded (JObj [(''rules'', JList rs)]) = Inr v) \<longleftrightarrow>
     (\<forall>r \<in> set rs. \<exists>kvs entries. r = JObj kvs \<and> map_of kvs ''operators'' = Some (JList entries) \<and>
        (\<forall>op_entry \<in> set entries. valid_entry loaded op_entry))"
proof -
  have "(\<exists>v. load_strategy loaded (JObj [(''rules'', JList rs)]) = Inr v) \<longleftrightarrow>
      check_rules loaded rs = None"
    by (simp add: load_strategy_def split: option.splits)
  then show ?thesis by (simp only: check_rules_None_iff check_rule_None_iff)
qed

section \<open>Loading the strategy: the claims\<close>

text \<open>
  Claim C4 at the failing input. A strategy whose only rule has an empty \<open>operators\<close>
  list passes the validation: \<open>_load_strategy\<close> returns the rules. The failure comes
  later, when the rule is selected: \<open>select_operator\<close> raises \<open>IndexError\<close>, and so does
  the \<open>mutate\<close> call.
\<close>

theorem empty_operators_accepted:
  "load_strategy [''insert_random_bytes''] empty_rule_strategy =
     Inr (JList [JObj [(''name'', JStr ''r''), (''operators'', JList [])]]) \<and>
   select_operator demo_lib empty_rule () = (Inl IndexError, ()) \<and>
   fst (mutate demo_utils demo_lib (init_engine [(''insert_random_bytes'', op_same)] [empty_rule])
          [0x78] Map.empty 1 ()) = Inl IndexError"
  by (simp add: load_strategy_def empty_rule_strategy_def check_rule_def select_operator_def
      empty_rule_def mutate_def init_engine_def)

end
